theory Spec2Isabelle
  imports Main "HOL-Library.Sublist"
begin

section \<open>The filesystem the two components work on\<close>

text \<open>
  \<^verbatim>\<open>pc_cleaner_organizer.py\<close> touches the disk only through \<^verbatim>\<open>os\<close>,
  \<^verbatim>\<open>os.path\<close> and \<^verbatim>\<open>shutil\<close>. A path is the list of its components (the root is
  the empty list, \<^verbatim>\<open>os.path.join(d, name)\<close> is \<open>d @ [name]\<close>), and a disk is the list of
  its entries in the order in which a directory listing enumerates them. Each entry is a
  regular file with its bytes, or a directory. The root always exists. Names are compared
  byte for byte (a case-sensitive filesystem); symbolic links and special files are not
  part of the model.
\<close>

type_synonym path = "string list"

type_synonym content = string

datatype entry = File content | Dir

type_synonym filesystem = "(path \<times> entry) list"

datatype os_error =
    FileNotFoundError
  | FileExistsError
  | NotADirectoryError
  | IsADirectoryError
  | PermissionError
  | ShutilError

text \<open>
  What the program cannot decide by itself: the operating system family reported by
  \<^verbatim>\<open>platform.system()\<close>, the environment variables that \<^verbatim>\<open>TEMP_DIRS\<close> expands, the
  MD5 function of \<^verbatim>\<open>hashlib\<close> (the 128-bit digest as a number), and which calls the
  operating system refuses (an unreadable file, an entry that cannot be unlinked, a move
  that cannot be carried out).
\<close>

record platform =
  system :: string
  env_temp :: path
  env_appdata :: path
  env_home :: path
  md5 :: "content \<Rightarrow> nat"
  read_fails :: "path \<Rightarrow> bool"
  remove_fails :: "path \<Rightarrow> bool"
  move_fails :: "path \<Rightarrow> path \<Rightarrow> bool"

definition lookup :: "filesystem \<Rightarrow> path \<Rightarrow> entry option" where
  "lookup fs p = (if p = [] then Some Dir else map_of fs p)"

definition os_path_exists :: "filesystem \<Rightarrow> path \<Rightarrow> bool" where
  "os_path_exists fs p = (lookup fs p \<noteq> None)"

definition os_path_isdir :: "filesystem \<Rightarrow> path \<Rightarrow> bool" where
  "os_path_isdir fs p = (lookup fs p = Some Dir)"

definition os_path_isfile :: "filesystem \<Rightarrow> path \<Rightarrow> bool" where
  "os_path_isfile fs p = (case lookup fs p of Some (File c) \<Rightarrow> True | _ \<Rightarrow> False)"

definition children :: "filesystem \<Rightarrow> path \<Rightarrow> string list" where
  "children fs p = map (\<lambda>(q, e). last q) (filter (\<lambda>(q, e). q \<noteq> [] \<and> butlast q = p) fs)"

definition os_listdir :: "filesystem \<Rightarrow> path \<Rightarrow> os_error + string list" where
  "os_listdir fs p =
     (case lookup fs p of
        None \<Rightarrow> Inl FileNotFoundError
      | Some (File c) \<Rightarrow> Inl NotADirectoryError
      | Some Dir \<Rightarrow> Inr (children fs p))"

definition os_mkdir :: "filesystem \<Rightarrow> path \<Rightarrow> os_error + filesystem" where
  "os_mkdir fs p =
     (if os_path_exists fs p then Inl FileExistsError
      else case lookup fs (butlast p) of
             None \<Rightarrow> Inl FileNotFoundError
           | Some (File c) \<Rightarrow> Inl NotADirectoryError
           | Some Dir \<Rightarrow> Inr (fs @ [(p, Dir)]))"

text \<open>
  \<^verbatim>\<open>os.makedirs(name, exist_ok=True)\<close>: a missing parent is created first (a
  \<^verbatim>\<open>FileExistsError\<close> from that inner call is swallowed), then \<^verbatim>\<open>mkdir(name)\<close>; an error
  of \<^verbatim>\<open>mkdir\<close> is re-raised unless \<^verbatim>\<open>name\<close> is a directory by then. A regular file in
  the place of \<^verbatim>\<open>name\<close> therefore raises \<^verbatim>\<open>FileExistsError\<close>.
\<close>

definition mkdir_exist_ok :: "filesystem \<Rightarrow> path \<Rightarrow> os_error + filesystem" where
  "mkdir_exist_ok fs name =
     (case os_mkdir fs name of
        Inl e \<Rightarrow> (if os_path_isdir fs name then Inr fs else Inl e)
      | Inr fs1 \<Rightarrow> Inr fs1)"

function os_makedirs :: "filesystem \<Rightarrow> path \<Rightarrow> os_error + filesystem" where
  "os_makedirs fs name =
     (if name \<noteq> [] \<and> \<not> os_path_exists fs (butlast name)
      then (case os_makedirs fs (butlast name) of
              Inl e \<Rightarrow> (if e = FileExistsError then mkdir_exist_ok fs name else Inl e)
            | Inr fs1 \<Rightarrow> mkdir_exist_ok fs1 name)
      else mkdir_exist_ok fs name)"
  by pat_completeness auto
termination
  by (relation "measure (\<lambda>(fs, name). length name)") auto

declare os_makedirs.simps [simp del]

definition os_remove :: "platform \<Rightarrow> filesystem \<Rightarrow> path \<Rightarrow> os_error + filesystem" where
  "os_remove pf fs p =
     (case lookup fs p of
        None \<Rightarrow> Inl FileNotFoundError
      | Some Dir \<Rightarrow> Inl IsADirectoryError
      | Some (File c) \<Rightarrow>
          (if remove_fails pf p then Inl PermissionError
           else Inr (filter (\<lambda>(q, e). q \<noteq> p) fs)))"

text \<open>
  \<^verbatim>\<open>os.path.getsize\<close>. The size of a directory depends on the filesystem; the purger
  asks only for the size of the non-directories of a walk, and the model answers 0 for a
  directory.
\<close>

definition os_path_getsize :: "filesystem \<Rightarrow> path \<Rightarrow> os_error + nat" where
  "os_path_getsize fs p =
     (case lookup fs p of
        None \<Rightarrow> Inl FileNotFoundError
      | Some Dir \<Rightarrow> Inr 0
      | Some (File c) \<Rightarrow> Inr (length c))"

definition read_file :: "platform \<Rightarrow> filesystem \<Rightarrow> path \<Rightarrow> os_error + content" where
  "read_file pf fs p =
     (case lookup fs p of
        None \<Rightarrow> Inl FileNotFoundError
      | Some Dir \<Rightarrow> Inl IsADirectoryError
      | Some (File c) \<Rightarrow> (if read_fails pf p then Inl PermissionError else Inr c))"

text \<open>
  \<^verbatim>\<open>os.rename\<close> of a regular file: the parent of the target must be a directory, and
  a regular file already at the target is replaced (POSIX).
\<close>

definition rename_file :: "filesystem \<Rightarrow> path \<Rightarrow> path \<Rightarrow> content \<Rightarrow> os_error + filesystem" where
  "rename_file fs src dst c =
     (if \<not> os_path_isdir fs (butlast dst) then Inl FileNotFoundError
      else Inr (filter (\<lambda>(q, e). q \<noteq> src \<and> q \<noteq> dst) fs @ [(dst, File c)]))"

text \<open>
  \<^verbatim>\<open>shutil.move(src, dst)\<close> for a regular file \<^verbatim>\<open>src\<close>, the only use the organizer makes
  of it (it moves paths for which \<^verbatim>\<open>os.path.isfile\<close> held): an existing directory
  \<^verbatim>\<open>dst\<close> means "move into it" and fails when the name is taken there; otherwise the file
  is renamed to \<^verbatim>\<open>dst\<close>. A move the platform refuses raises and is modelled as leaving the
  disk as it was (a move across devices that fails between the copy and the unlink, with
  the file at both places, is not modelled). Moving a directory is outside the model and answers an error.
\<close>

definition shutil_move :: "platform \<Rightarrow> filesystem \<Rightarrow> path \<Rightarrow> path \<Rightarrow> os_error + filesystem" where
  "shutil_move pf fs src dst =
     (if move_fails pf src dst then Inl PermissionError
      else case lookup fs src of
             None \<Rightarrow> Inl FileNotFoundError
           | Some Dir \<Rightarrow> Inl IsADirectoryError
           | Some (File c) \<Rightarrow>
               (if os_path_isdir fs dst
                then (let real_dst = dst @ [last src]
                      in if os_path_exists fs real_dst then Inl ShutilError
                         else rename_file fs src real_dst c)
                else rename_file fs src dst c))"

text \<open>
  \<^verbatim>\<open>os.walk(top, topdown=False)\<close> with the default \<^verbatim>\<open>onerror=None\<close>: a directory is
  listed, each subdirectory is walked, and only then the triple of the directory is
  yielded; a \<^verbatim>\<open>top\<close> that cannot be listed yields nothing. The generator is lazy, but each
  directory is listed before the loop body of the purger runs on anything below or beside
  it, and that body removes entries only below the root of the triple it handles, so the
  triples are those of the disk at the time of the call. Every directory of the model can
  be listed: a subdirectory that \<^verbatim>\<open>os.scandir\<close> cannot open, which the real walk passes
  over, is not modelled.
\<close>

definition subdirs :: "filesystem \<Rightarrow> path \<Rightarrow> string list" where
  "subdirs fs tdir = filter (\<lambda>n. os_path_isdir fs (tdir @ [n])) (children fs tdir)"

definition nondirs :: "filesystem \<Rightarrow> path \<Rightarrow> string list" where
  "nondirs fs tdir = filter (\<lambda>n. \<not> os_path_isdir fs (tdir @ [n])) (children fs tdir)"

definition below :: "filesystem \<Rightarrow> path \<Rightarrow> filesystem" where
  "below fs tdir = filter (\<lambda>(q, e). strict_prefix tdir q) fs"

function os_walk :: "filesystem \<Rightarrow> path \<Rightarrow> (path \<times> string list \<times> string list) list" where
  "os_walk fs tdir =
     (if os_path_isdir fs tdir
      then concat (map (\<lambda>d. os_walk fs (tdir @ [d])) (subdirs fs tdir))
           @ [(tdir, subdirs fs tdir, nondirs fs tdir)]
      else [])"
  by pat_completeness auto
termination
proof (relation "measure (\<lambda>(fs, tdir). length (below fs tdir))")
  show "wf (measure (\<lambda>(fs, tdir). length (below fs tdir)))" by simp
next
  fix fs :: filesystem and tdir :: path and d :: string
  assume "os_path_isdir fs tdir" and d: "d \<in> set (subdirs fs tdir)"
  let ?P = "\<lambda>(q :: path, e :: entry). strict_prefix (tdir @ [d]) q"
  let ?Q = "\<lambda>(q :: path, e :: entry). strict_prefix tdir q"
  from d have "lookup fs (tdir @ [d]) = Some Dir"
    by (simp add: subdirs_def os_path_isdir_def)
  then have mem: "(tdir @ [d], Dir) \<in> set fs"
    by (simp add: lookup_def map_of_SomeD)
  have imp: "\<And>x. ?P x \<Longrightarrow> ?Q x"
    by (auto simp: strict_prefix_def prefix_def)
  have "filter ?P fs = filter ?P (filter ?Q fs)"
    using imp by (auto intro: filter_cong)
  moreover have "length (filter ?P (filter ?Q fs)) < length (filter ?Q fs)"
  proof (rule length_filter_less [of "(tdir @ [d], Dir)"])
    show "(tdir @ [d], Dir) \<in> set (filter ?Q fs)"
      using mem by (simp add: strict_prefix_def)
    show "\<not> ?P (tdir @ [d], Dir)" by simp
  qed
  ultimately have "length (below fs (tdir @ [d])) < length (below fs tdir)"
    by (simp add: below_def)
  then show "((fs, tdir @ [d]), (fs, tdir)) \<in> measure (\<lambda>(fs, tdir). length (below fs tdir))"
    by simp
qed

declare os_walk.simps [simp del]

text \<open>
  \<^verbatim>\<open>shutil.rmtree(path, ignore_errors=True)\<close> unlinks the files and removes the
  directories under \<^verbatim>\<open>path\<close>, children before parents, and \<^verbatim>\<open>path\<close> last, passing over
  whatever fails. An entry therefore stays exactly when it, or something below it, cannot
  be removed. A \<^verbatim>\<open>path\<close> that is not a directory is an error, which is ignored.
\<close>

definition sticky :: "platform \<Rightarrow> filesystem \<Rightarrow> path \<Rightarrow> bool" where
  "sticky pf fs q = list_ex (\<lambda>(r, e). prefix q r \<and> remove_fails pf r) fs"

definition shutil_rmtree :: "platform \<Rightarrow> filesystem \<Rightarrow> path \<Rightarrow> filesystem" where
  "shutil_rmtree pf fs p =
     (if os_path_isdir fs p
      then filter (\<lambda>(q, e). \<not> prefix p q \<or> sticky pf fs q) fs
      else fs)"

section \<open>Strings\<close>

text \<open>
  \<^verbatim>\<open>str.lower()\<close> on the ASCII letters; the model leaves every other character as it is,
  so it follows Python on file names whose extension is ASCII.
\<close>

definition lower_char :: "char \<Rightarrow> char" where
  "lower_char c =
     (case map_of (zip ''ABCDEFGHIJKLMNOPQRSTUVWXYZ'' ''abcdefghijklmnopqrstuvwxyz'') c of
        Some l \<Rightarrow> l
      | None \<Rightarrow> c)"

definition str_lower :: "string \<Rightarrow> string" where
  "str_lower s = map lower_char s"

text \<open>The decimal numeral that an f-string prints for a non-negative integer.\<close>

definition digit_char :: "nat \<Rightarrow> char" where
  "digit_char d = ''0123456789'' ! d"

fun str :: "nat \<Rightarrow> string" where
  "str n = (if n < 10 then [digit_char n] else str (n div 10) @ [digit_char (n mod 10)])"

declare str.simps [simp del]

text \<open>\<^verbatim>\<open>hexdigest()\<close>: the 32 lowercase hexadecimal digits of a 128-bit digest.\<close>

fun hex_digits :: "nat \<Rightarrow> nat \<Rightarrow> string" where
  "hex_digits 0 d = []"
| "hex_digits (Suc k) d = hex_digits k (d div 16) @ [''0123456789abcdef'' ! (d mod 16)]"

definition hexdigest :: "nat \<Rightarrow> string" where
  "hexdigest d = hex_digits 32 d"

text \<open>
  \<^verbatim>\<open>os.path.splitext\<close> on a file name (a name holds no separator): the extension starts
  at the last dot, unless only dots stand before that dot, in which case there is no
  extension.
\<close>

definition os_path_splitext :: "string \<Rightarrow> string \<times> string" where
  "os_path_splitext p =
     (if CHR ''.'' \<in> set p
      then (let i = length p - Suc (length (takeWhile (\<lambda>c. c \<noteq> CHR ''.'') (rev p)))
            in if list_ex (\<lambda>c. c \<noteq> CHR ''.'') (take i p) then (take i p, drop i p) else (p, []))
      else (p, []))"

section \<open>The configuration tables\<close>

definition FILE_CATEGORIES :: "(string \<times> string list) list" where
  "FILE_CATEGORIES =
     [(''Images'', [''.jpg'', ''.jpeg'', ''.png'', ''.gif'', ''.bmp'']),
      (''Documents'', [''.pdf'', ''.doc'', ''.docx'', ''.txt'', ''.xlsx'']),
      (''Videos'', [''.mp4'', ''.mkv'', ''.avi'']),
      (''Music'', [''.mp3'', ''.wav'']),
      (''Archives'', [''.zip'', ''.rar'', ''.tar'']),
      (''Others'', [])]"

text \<open>
  \<^verbatim>\<open>TEMP_DIRS\<close>, with \<^verbatim>\<open>%temp%\<close>, \<^verbatim>\<open>%appdata%\<close> and \<^verbatim>\<open>~\<close> expanded from the
  environment of the platform.
\<close>

definition TEMP_DIRS :: "platform \<Rightarrow> (string \<times> path list) list" where
  "TEMP_DIRS pf =
     [(''Windows'', [env_temp pf, env_appdata pf @ [''Microsoft'', ''Windows'', ''Recent'']]),
      (''Linux'', [[''tmp''], env_home pf @ [''.cache'']]),
      (''Darwin'', [env_home pf @ [''Library'', ''Caches''], [''private'', ''var'', ''tmp'']])]"

section \<open>The log and the state of a run\<close>

text \<open>One constructor for each \<^verbatim>\<open>logging\<close> call of the two components.\<close>

datatype log_event =
    ErrorNoDirectory path
  | ErrorHashing path os_error
  | WarningDuplicate string
  | InfoMoved string string
  | ErrorMove string os_error
  | InfoDeleted path nat
  | ErrorDelete path os_error
  | InfoDeletedDirectory path

datatype 'a outcome = Returned 'a | Raised os_error

record world =
  disk :: filesystem
  logfile :: "log_event list"

record org_state = world +
  file_hashes :: "(string \<times> path) list"
  moved_count :: nat
  duplicate_count :: nat

record purge_state = world +
  deleted_count :: nat
  total_size :: nat

section \<open>The Classifier/Mover\<close>

text \<open>
  \<^verbatim>\<open>get_file_hash\<close>. The file is read in chunks of 4096 bytes and every chunk is fed to
  the digest, which is the digest of the whole content. Any exception is logged and the
  answer is \<^verbatim>\<open>None\<close>.
\<close>

definition get_file_hash :: "platform \<Rightarrow> filesystem \<Rightarrow> path \<Rightarrow> string option \<times> log_event list" where
  "get_file_hash pf fs file_path =
     (case read_file pf fs file_path of
        Inr c \<Rightarrow> (Some (hexdigest (md5 pf c)), [])
      | Inl e \<Rightarrow> (None, [ErrorHashing file_path e]))"

text \<open>The truth value Python gives to \<^verbatim>\<open>file_hash\<close> in \<^verbatim>\<open>if file_hash\<close>.\<close>

definition truthy :: "string option \<Rightarrow> bool" where
  "truthy h = (case h of None \<Rightarrow> False | Some s \<Rightarrow> s \<noteq> [])"

text \<open>The category loop of lines 64 to 68: the first category whose list holds the extension.\<close>

fun find_category :: "(string \<times> string list) list \<Rightarrow> string \<Rightarrow> string \<Rightarrow> string" where
  "find_category [] file_ext category = category"
| "find_category ((cat, exts) # rest) file_ext category =
     (if file_ext \<in> set exts then cat else find_category rest file_ext category)"

definition category_of :: "string \<Rightarrow> string" where
  "category_of filename =
     (let file_ext = str_lower (snd (os_path_splitext filename))
      in find_category FILE_CATEGORIES file_ext ''Others'')"

text \<open>
  The \<^verbatim>\<open>while os.path.exists(dest_path)\<close> loop of lines 91 to 93, on its two variables
  \<^verbatim>\<open>dest_path\<close> and \<^verbatim>\<open>counter\<close>.
\<close>

function free_name :: "filesystem \<Rightarrow> path \<Rightarrow> string \<Rightarrow> string \<Rightarrow> path \<Rightarrow> nat \<Rightarrow> path" where
  "free_name fs category_dir base ext dest_path counter =
     (if os_path_exists fs dest_path
      then free_name fs category_dir base ext
             (category_dir @ [base @ ''_'' @ str counter @ ext]) (counter + 1)
      else dest_path)"
  by pat_completeness auto
termination
proof (relation "measure (\<lambda>(fs, category_dir, base, ext, dest_path, counter).
          2 * card {k. counter \<le> k \<and> os_path_exists fs (category_dir @ [base @ ''_'' @ str k @ ext])}
          + (if os_path_exists fs dest_path then 1 else 0))")
  show "wf (measure (\<lambda>(fs, category_dir, base, ext, dest_path, counter).
          2 * card {k. counter \<le> k \<and> os_path_exists fs (category_dir @ [base @ ''_'' @ str k @ ext])}
          + (if os_path_exists fs dest_path then 1 else 0)))"
    by simp
next
  fix fs :: filesystem and category_dir :: path and base ext :: string
    and dest_path :: path and counter :: nat
  assume ex: "os_path_exists fs dest_path"
  have digit_code: "of_char (digit_char a) = 48 + a" if "a < 10" for a :: nat
  proof -
    from that have "a = 0 \<or> a = 1 \<or> a = 2 \<or> a = 3 \<or> a = 4 \<or> a = 5 \<or> a = 6 \<or> a = 7
        \<or> a = 8 \<or> a = 9"
      by arith
    then show ?thesis
      by (elim disjE) (simp_all add: digit_char_def)
  qed
  have digit_inj: "a = b" if "digit_char a = digit_char b" "a < 10" "b < 10" for a b :: nat
  proof -
    have "(of_char (digit_char a) :: nat) = of_char (digit_char b)"
      using that(1) by simp
    then show ?thesis
      using digit_code [OF that(2)] digit_code [OF that(3)] by simp
  qed
  have str_nonempty: "str n \<noteq> []" for n
    by (subst str.simps) simp
  have str_inj: "str n = str m \<Longrightarrow> n = m" for n m
  proof (induction n arbitrary: m rule: str.induct)
    case (1 n)
    show ?case
    proof (cases "n < 10")
      case small: True
      show ?thesis
      proof (cases "m < 10")
        case True
        with small "1.prems" have "digit_char n = digit_char m"
          by (subst (asm) str.simps, subst (asm) (2) str.simps) simp
        then show ?thesis using small True by (rule digit_inj)
      next
        case False
        with small "1.prems" have "[digit_char n] = str (m div 10) @ [digit_char (m mod 10)]"
          by (subst (asm) str.simps, subst (asm) (2) str.simps) simp
        then have "str (m div 10) = []" by simp
        with str_nonempty show ?thesis by blast
      qed
    next
      case big: False
      show ?thesis
      proof (cases "m < 10")
        case True
        with big "1.prems" have "str (n div 10) @ [digit_char (n mod 10)] = [digit_char m]"
          by (subst (asm) str.simps, subst (asm) (2) str.simps) simp
        then have "str (n div 10) = []" by simp
        with str_nonempty show ?thesis by blast
      next
        case False
        with big "1.prems" have
          "str (n div 10) @ [digit_char (n mod 10)] = str (m div 10) @ [digit_char (m mod 10)]"
          by (subst (asm) str.simps, subst (asm) (2) str.simps) simp
        then have a: "str (n div 10) = str (m div 10)"
          and b: "digit_char (n mod 10) = digit_char (m mod 10)"
          by simp_all
        from "1.IH" [OF big a] have "n div 10 = m div 10" .
        moreover from b have "n mod 10 = m mod 10"
          by (rule digit_inj) simp_all
        ultimately show ?thesis
          by (metis div_mult_mod_eq)
      qed
    qed
  qed
  let ?cand = "\<lambda>k. category_dir @ [base @ ''_'' @ str k @ ext]"
  let ?A = "\<lambda>c. {k. c \<le> k \<and> os_path_exists fs (?cand k)}"
  have "inj ?cand"
    by (rule injI) (use str_inj in simp)
  then have "finite (?cand -` (insert [] (fst ` set fs)))"
    by (intro finite_vimageI) simp_all
  moreover have "?A counter \<subseteq> ?cand -` (insert [] (fst ` set fs))"
    by (auto simp: os_path_exists_def lookup_def map_of_eq_None_iff split: if_splits)
  ultimately have fin: "finite (?A counter)"
    by (rule rev_finite_subset)
  have step: "?A (counter + 1) = ?A counter - {counter}"
    by auto
  have "2 * card (?A (counter + 1)) + (if os_path_exists fs (?cand counter) then 1 else 0)
        < 2 * card (?A counter) + 1"
  proof (cases "os_path_exists fs (?cand counter)")
    case True
    then have "counter \<in> ?A counter" by simp
    with fin have "card (?A counter - {counter}) < card (?A counter)"
      by (rule card_Diff1_less)
    with True step show ?thesis by simp
  next
    case False
    then have "?A counter - {counter} = ?A counter" by auto
    with False step show ?thesis by simp
  qed
  with ex show "((fs, category_dir, base, ext, ?cand counter, counter + 1),
                 (fs, category_dir, base, ext, dest_path, counter))
        \<in> measure (\<lambda>(fs, category_dir, base, ext, dest_path, counter).
          2 * card {k. counter \<le> k \<and> os_path_exists fs (category_dir @ [base @ ''_'' @ str k @ ext])}
          + (if os_path_exists fs dest_path then 1 else 0))"
    by simp
qed

declare free_name.simps [simp del]

definition choose_dest :: "filesystem \<Rightarrow> path \<Rightarrow> string \<Rightarrow> path" where
  "choose_dest fs category_dir filename =
     (let dest_path = category_dir @ [filename]
      in if os_path_exists fs dest_path
         then (case os_path_splitext filename of
                 (base, ext) \<Rightarrow> free_name fs category_dir base ext dest_path 1)
         else dest_path)"

text \<open>Lines 85 to 101: the destination is chosen and the file is moved inside the \<^verbatim>\<open>try\<close>.\<close>

definition move_file :: "platform \<Rightarrow> path \<Rightarrow> string \<Rightarrow> string \<Rightarrow> org_state \<Rightarrow> org_state" where
  "move_file pf source_dir filename category st =
     (let source_path = source_dir @ [filename];
          category_dir = source_dir @ [category];
          dest_path = choose_dest (disk st) category_dir filename
      in case shutil_move pf (disk st) source_path dest_path of
           Inr fs1 \<Rightarrow>
             st\<lparr>disk := fs1,
                logfile := logfile st @ [InfoMoved filename category],
                moved_count := moved_count st + 1\<rparr>
         | Inl e \<Rightarrow> st\<lparr>logfile := logfile st @ [ErrorMove filename e]\<rparr>)"

text \<open>
  Lines 76 to 83 and what follows them: a file whose hash is already in the index is
  removed and counted, and the loop goes on to the next entry (\<^verbatim>\<open>continue\<close>); any other
  file has its hash recorded, if it has one, and is moved. \<^verbatim>\<open>os.remove\<close> (line 79)
  stands outside every \<^verbatim>\<open>try\<close>, so its exception leaves the body.
\<close>

definition remove_duplicate_or_move ::
  "platform \<Rightarrow> path \<Rightarrow> string \<Rightarrow> string \<Rightarrow> org_state \<Rightarrow> os_error option \<times> org_state" where
  "remove_duplicate_or_move pf source_dir filename category st =
     (let source_path = source_dir @ [filename]
      in case get_file_hash pf (disk st) source_path of
           (file_hash, lg) \<Rightarrow>
             (let st1 = st\<lparr>logfile := logfile st @ lg\<rparr>
              in if truthy file_hash \<and> the file_hash \<in> set (map fst (file_hashes st1))
                 then (let st2 = st1\<lparr>logfile := logfile st1 @ [WarningDuplicate filename]\<rparr>
                       in case os_remove pf (disk st2) source_path of
                            Inl e \<Rightarrow> (Some e, st2)
                          | Inr fs1 \<Rightarrow>
                              (None, st2\<lparr>disk := fs1,
                                           duplicate_count := duplicate_count st2 + 1\<rparr>))
                 else (None, move_file pf source_dir filename category
                         (if truthy file_hash
                          then st1\<lparr>file_hashes :=
                                 (the file_hash, source_path) # file_hashes st1\<rparr>
                          else st1))))"

text \<open>
  The body of the loop over the listing, lines 60 to 101. The first component of the
  result is the exception that leaves the body, if any: \<^verbatim>\<open>os.makedirs\<close> (line 72) stands
  outside every \<^verbatim>\<open>try\<close> as well.
\<close>

definition organize_entry ::
  "platform \<Rightarrow> path \<Rightarrow> bool \<Rightarrow> string \<Rightarrow> org_state \<Rightarrow> os_error option \<times> org_state" where
  "organize_entry pf source_dir delete_duplicates filename st =
     (let source_path = source_dir @ [filename]
      in if os_path_isfile (disk st) source_path
         then (let category = category_of filename;
                   category_dir = source_dir @ [category]
               in case os_makedirs (disk st) category_dir of
                    Inl e \<Rightarrow> (Some e, st)
                  | Inr fs1 \<Rightarrow>
                      (let st1 = st\<lparr>disk := fs1\<rparr>
                       in if delete_duplicates
                          then remove_duplicate_or_move pf source_dir filename category st1
                          else (None, move_file pf source_dir filename category st1)))
         else (None, st))"

fun organize_loop ::
  "platform \<Rightarrow> path \<Rightarrow> bool \<Rightarrow> string list \<Rightarrow> org_state \<Rightarrow> os_error option \<times> org_state" where
  "organize_loop pf source_dir delete_duplicates [] st = (None, st)"
| "organize_loop pf source_dir delete_duplicates (filename # rest) st =
     (case organize_entry pf source_dir delete_duplicates filename st of
        (Some e, st1) \<Rightarrow> (Some e, st1)
      | (None, st1) \<Rightarrow> organize_loop pf source_dir delete_duplicates rest st1)"

definition initial_org_state :: "filesystem \<Rightarrow> org_state" where
  "initial_org_state fs =
     \<lparr>disk = fs, logfile = [], file_hashes = [], moved_count = 0, duplicate_count = 0\<rparr>"

text \<open>
  \<^verbatim>\<open>organize_files\<close>: the disk and the log lines it leaves, and what the call does:
  it returns the two counts or an exception leaves it.
\<close>

definition organize_files ::
  "platform \<Rightarrow> filesystem \<Rightarrow> path \<Rightarrow> bool \<Rightarrow> filesystem \<times> log_event list \<times> (nat \<times> nat) outcome" where
  "organize_files pf fs source_dir delete_duplicates =
     (if \<not> os_path_exists fs source_dir
      then (fs, [ErrorNoDirectory source_dir], Returned (0, 0))
      else case os_listdir fs source_dir of
             Inl e \<Rightarrow> (fs, [], Raised e)
           | Inr names \<Rightarrow>
               (case organize_loop pf source_dir delete_duplicates names (initial_org_state fs) of
                  (Some e, st) \<Rightarrow> (disk st, logfile st, Raised e)
                | (None, st) \<Rightarrow>
                    (disk st, logfile st, Returned (moved_count st, duplicate_count st))))"

section \<open>The Temp Purger\<close>

text \<open>Lines 125 to 133: one file of a triple, inside its \<^verbatim>\<open>try\<close>.\<close>

definition delete_file :: "platform \<Rightarrow> path \<Rightarrow> purge_state \<Rightarrow> purge_state" where
  "delete_file pf file_path st =
     (case os_path_getsize (disk st) file_path of
        Inl e \<Rightarrow> st\<lparr>logfile := logfile st @ [ErrorDelete file_path e]\<rparr>
      | Inr file_size \<Rightarrow>
          (case os_remove pf (disk st) file_path of
             Inl e \<Rightarrow> st\<lparr>logfile := logfile st @ [ErrorDelete file_path e]\<rparr>
           | Inr fs1 \<Rightarrow>
               st\<lparr>disk := fs1,
                  logfile := logfile st @ [InfoDeleted file_path file_size],
                  deleted_count := deleted_count st + 1,
                  total_size := total_size st + file_size\<rparr>))"

text \<open>
  Lines 135 to 140: one directory of a triple. \<^verbatim>\<open>shutil.rmtree\<close> with
  \<^verbatim>\<open>ignore_errors=True\<close> raises nothing, so the \<^verbatim>\<open>except\<close> branch is never taken.
\<close>

definition delete_dir :: "platform \<Rightarrow> path \<Rightarrow> purge_state \<Rightarrow> purge_state" where
  "delete_dir pf dir_path st =
     st\<lparr>disk := shutil_rmtree pf (disk st) dir_path,
        logfile := logfile st @ [InfoDeletedDirectory dir_path]\<rparr>"

definition purge_triple ::
  "platform \<Rightarrow> path \<times> string list \<times> string list \<Rightarrow> purge_state \<Rightarrow> purge_state" where
  "purge_triple pf triple st =
     (case triple of
        (root, dirs, files) \<Rightarrow>
          fold (\<lambda>dir. delete_dir pf (root @ [dir])) dirs
            (fold (\<lambda>file. delete_file pf (root @ [file])) files st))"

text \<open>Lines 120 to 140: one configured location.\<close>

definition purge_location :: "platform \<Rightarrow> path \<Rightarrow> purge_state \<Rightarrow> purge_state" where
  "purge_location pf temp_dir st =
     (if \<not> os_path_exists (disk st) temp_dir then st
      else fold (purge_triple pf) (os_walk (disk st) temp_dir) st)"

definition initial_purge_state :: "filesystem \<Rightarrow> purge_state" where
  "initial_purge_state fs = \<lparr>disk = fs, logfile = [], deleted_count = 0, total_size = 0\<rparr>"

definition temp_dirs_of :: "platform \<Rightarrow> path list" where
  "temp_dirs_of pf = (case map_of (TEMP_DIRS pf) (system pf) of Some ds \<Rightarrow> ds | None \<Rightarrow> [])"

text \<open>
  \<^verbatim>\<open>clean_temp_files\<close>; \<^verbatim>\<open>answer\<close> is the line that \<^verbatim>\<open>input\<close> reads. No exception
  leaves the function: every call that can raise stands inside a \<^verbatim>\<open>try\<close>.
\<close>

definition clean_temp_files ::
  "platform \<Rightarrow> string \<Rightarrow> filesystem \<Rightarrow> filesystem \<times> log_event list \<times> nat \<times> nat" where
  "clean_temp_files pf answer fs =
     (let temp_dirs = temp_dirs_of pf;
          confirm = str_lower answer
      in if confirm \<noteq> ''y'' then (fs, [], 0, 0)
         else (let st = fold (purge_location pf) temp_dirs (initial_purge_state fs)
               in (disk st, logfile st, deleted_count st, total_size st)))"

section \<open>Example platforms and disks\<close>

text \<open>
  A Linux host whose home directory is \<^verbatim>\<open>/home/u\<close> and on which no call is refused. The
  digest function is a stand-in: the theorems below hold for every digest function.
\<close>

definition linux_host :: platform where
  "linux_host =
     \<lparr>system = ''Linux'', env_temp = [''tmp''], env_appdata = [''appdata''],
      env_home = [''home'', ''u''], md5 = (\<lambda>c. length c),
      read_fails = (\<lambda>p. False), remove_fails = (\<lambda>p. False),
      move_fails = (\<lambda>p q. False)\<rparr>"

text \<open>A downloads directory with a picture, a text file and a file without extension.\<close>

definition downloads_disk :: filesystem where
  "downloads_disk =
     [([''d''], Dir),
      ([''d'', ''a.JPG''], File ''pic''),
      ([''d'', ''notes.txt''], File ''text''),
      ([''d'', ''README''], File ''read me'')]"

text \<open>A temp directory with a file and a subdirectory that holds another file.\<close>

definition temp_disk :: filesystem where
  "temp_disk =
     [([''tmp''], Dir),
      ([''tmp'', ''a''], File ''xyz''),
      ([''tmp'', ''s''], Dir),
      ([''tmp'', ''s'', ''b''], File ''12''),
      ([''home''], Dir)]"

text \<open>
  A directory whose \<^verbatim>\<open>Images\<close> folder already holds \<^verbatim>\<open>a.jpg\<close> and \<^verbatim>\<open>a_1.jpg\<close>, and a
  third \<^verbatim>\<open>a.jpg\<close> waiting to be organized.
\<close>

definition collision_disk :: filesystem where
  "collision_disk =
     [([''d''], Dir),
      ([''d'', ''Images''], Dir),
      ([''d'', ''Images'', ''a.jpg''], File ''first''),
      ([''d'', ''Images'', ''a_1.jpg''], File ''second''),
      ([''d'', ''a.jpg''], File ''third'')]"

text \<open>A directory in which a regular file bears the name of a category folder.\<close>

definition named_like_category_disk :: filesystem where
  "named_like_category_disk =
     [([''d''], Dir),
      ([''d'', ''Others''], File ''x''),
      ([''d'', ''a.txt''], File ''y'')]"

text \<open>Two files with the same content and a third, different one.\<close>

definition duplicates_disk :: filesystem where
  "duplicates_disk =
     [([''d''], Dir),
      ([''d'', ''a.txt''], File ''same''),
      ([''d'', ''copy.txt''], File ''same''),
      ([''d'', ''later.txt''], File ''other'')]"

text \<open>A host that refuses to unlink \<^verbatim>\<open>d/copy.txt\<close> (a file another program holds open).\<close>

definition locked_host :: platform where
  "locked_host = linux_host\<lparr>remove_fails := (\<lambda>p. p = [''d'', ''copy.txt''])\<rparr>"

definition single_others_disk :: filesystem where
  "single_others_disk = [([''d''], Dir), ([''d'', ''Others''], File ''x'')]"

definition single_picture_disk :: filesystem where
  "single_picture_disk = [([''d''], Dir), ([''d'', ''a.jpg''], File ''pic'')]"

text \<open>A host that refuses every move.\<close>

definition refusing_host :: platform where
  "refusing_host = linux_host\<lparr>move_fails := (\<lambda>p q. True)\<rparr>"

definition twins_disk :: filesystem where
  "twins_disk =
     [([''d''], Dir),
      ([''d'', ''a.txt''], File ''same''),
      ([''d'', ''b.txt''], File ''same'')]"


text \<open>A host on which \<^verbatim>\<open>d/a.txt\<close> cannot be read.\<close>

definition unreadable_host :: platform where
  "unreadable_host = linux_host\<lparr>read_fails := (\<lambda>p. p = [''d'', ''a.txt''])\<rparr>"

text \<open>A host that refuses to unlink \<^verbatim>\<open>/tmp/s/b\<close>.\<close>

definition stuck_host :: platform where
  "stuck_host = linux_host\<lparr>remove_fails := (\<lambda>p. p = [''tmp'', ''s'', ''b''])\<rparr>"

text \<open>A Linux host whose home directory is \<^verbatim>\<open>/tmp/u\<close>, and its disk.\<close>

definition tmp_home_host :: platform where
  "tmp_home_host = linux_host\<lparr>env_home := [''tmp'', ''u'']\<rparr>"

definition tmp_home_disk :: filesystem where
  "tmp_home_disk =
     [([''tmp''], Dir),
      ([''tmp'', ''u''], Dir),
      ([''tmp'', ''u'', ''.cache''], Dir)]"

text \<open>
  How a later state of a run relates to an earlier one at the top level of the source
  directory: the log has only grown, no regular file has appeared directly inside the
  directory, and the directory is still there.
\<close>

definition top_level_shrinks :: "path \<Rightarrow> org_state \<Rightarrow> org_state \<Rightarrow> bool" where
  "top_level_shrinks source_dir st st1 =
     ((\<exists>l. logfile st1 = logfile st @ l)
      \<and> (\<forall>m. os_path_isfile (disk st1) (source_dir @ [m])
             \<longrightarrow> os_path_isfile (disk st) (source_dir @ [m]))
      \<and> (os_path_isdir (disk st) source_dir \<longrightarrow> os_path_isdir (disk st1) source_dir))"

text \<open>The downloads directory after it has been organized.\<close>

definition organized_downloads_disk :: filesystem where
  "organized_downloads_disk =
     [([''d''], Dir),
      ([''d'', ''Images''], Dir),
      ([''d'', ''Images'', ''a.JPG''], File ''pic''),
      ([''d'', ''Documents''], Dir),
      ([''d'', ''Documents'', ''notes.txt''], File ''text''),
      ([''d'', ''Others''], Dir),
      ([''d'', ''Others'', ''README''], File ''read me'')]"

text \<open>
  How the disk after some deletions relates to the disk before: every path holds what it
  held, or holds nothing any more and lies strictly inside one of the locations \<open>T\<close>.
\<close>

definition removed_only_below :: "path set \<Rightarrow> filesystem \<Rightarrow> filesystem \<Rightarrow> bool" where
  "removed_only_below T fs fs1 =
     (\<forall>p. lookup fs1 p = lookup fs p
          \<or> (lookup fs1 p = None \<and> (\<exists>t\<in>T. strict_prefix t p)))"

section \<open>Lookups after the operations on the disk\<close>

lemma map_of_filter_key:
  "map_of (filter (\<lambda>(q, e). P q) fs) p = (if P p then map_of fs p else None)"
  by (induction fs) auto

lemma lookup_filter:
  "lookup (filter (\<lambda>(q, e). P q) fs) p = (if p = [] \<or> P p then lookup fs p else None)"
  by (simp add: lookup_def map_of_filter_key)

lemma lookup_snoc:
  "lookup (fs @ [(q, e)]) p
   = (case lookup fs p of Some x \<Rightarrow> Some x | None \<Rightarrow> if p = q then Some e else None)"
  by (simp add: lookup_def map_add_def split: option.splits)

lemma free_name_not_exists:
  "\<not> os_path_exists fs (free_name fs cdir base ext dest counter)"
proof (induction fs cdir base ext dest counter rule: free_name.induct)
  case (1 fs cdir base ext dest counter)
  show ?case
    by (subst free_name.simps) (use 1 in auto)
qed

lemma free_name_first_free:
  assumes "os_path_exists fs dest"
  shows "\<exists>k\<ge>counter.
           free_name fs cdir base ext dest counter = cdir @ [base @ ''_'' @ str k @ ext]
           \<and> \<not> os_path_exists fs (cdir @ [base @ ''_'' @ str k @ ext])
           \<and> (\<forall>j. counter \<le> j \<and> j < k
                 \<longrightarrow> os_path_exists fs (cdir @ [base @ ''_'' @ str j @ ext]))"
  using assms
proof (induction fs cdir base ext dest counter rule: free_name.induct)
  case (1 fs cdir base ext dest counter)
  let ?cand = "\<lambda>k. cdir @ [base @ ''_'' @ str k @ ext]"
  have unfold: "free_name fs cdir base ext dest counter
                = free_name fs cdir base ext (?cand counter) (counter + 1)"
    using "1.prems" by (subst free_name.simps) simp
  show ?case
  proof (cases "os_path_exists fs (?cand counter)")
    case True
    from "1.IH" [OF "1.prems" True] obtain k where k: "counter + 1 \<le> k"
      and res: "free_name fs cdir base ext (?cand counter) (counter + 1) = ?cand k"
      and free: "\<not> os_path_exists fs (?cand k)"
      and taken: "\<forall>j. counter + 1 \<le> j \<and> j < k \<longrightarrow> os_path_exists fs (?cand j)"
      by blast
    have "\<forall>j. counter \<le> j \<and> j < k \<longrightarrow> os_path_exists fs (?cand j)"
    proof (intro allI impI)
      fix j assume j: "counter \<le> j \<and> j < k"
      show "os_path_exists fs (?cand j)"
      proof (cases "j = counter")
        case True with \<open>os_path_exists fs (?cand counter)\<close> show ?thesis by simp
      next
        case False with j taken show ?thesis by simp
      qed
    qed
    with k res free unfold show ?thesis
      by (intro exI [of _ k]) simp
  next
    case False
    then have "free_name fs cdir base ext (?cand counter) (counter + 1) = ?cand counter"
      by (subst free_name.simps) simp
    with unfold False show ?thesis
      by (intro exI [of _ counter]) auto
  qed
qed

lemma choose_dest_not_exists:
  "\<not> os_path_exists fs (choose_dest fs cdir filename)"
  by (simp add: choose_dest_def Let_def free_name_not_exists split: prod.splits)

lemma choose_dest_free:
  "\<not> os_path_exists fs (cdir @ [filename]) \<Longrightarrow> choose_dest fs cdir filename = cdir @ [filename]"
  by (simp add: choose_dest_def)

lemma choose_dest_collision:
  assumes "os_path_exists fs (cdir @ [filename])" and "os_path_splitext filename = (base, ext)"
  shows "\<exists>k\<ge>1.
           choose_dest fs cdir filename = cdir @ [base @ ''_'' @ str k @ ext]
           \<and> \<not> os_path_exists fs (cdir @ [base @ ''_'' @ str k @ ext])
           \<and> (\<forall>j. 1 \<le> j \<and> j < k
                 \<longrightarrow> os_path_exists fs (cdir @ [base @ ''_'' @ str j @ ext]))"
proof -
  have "choose_dest fs cdir filename = free_name fs cdir base ext (cdir @ [filename]) 1"
    using assms by (simp add: choose_dest_def)
  with free_name_first_free [OF assms(1), of 1 cdir base ext] show ?thesis
    by (simp only:)
qed

lemma choose_dest_child: "\<exists>x. choose_dest fs cdir filename = cdir @ [x]"
proof (cases "os_path_exists fs (cdir @ [filename])")
  case True
  obtain base ext where sp: "os_path_splitext filename = (base, ext)"
    by (cases "os_path_splitext filename")
  from free_name_first_free [OF True, of 1 cdir base ext] sp True show ?thesis
    by (auto simp: choose_dest_def)
next
  case False
  then show ?thesis by (simp add: choose_dest_free)
qed

lemma splitext_append: "os_path_splitext p = (base, ext) \<Longrightarrow> base @ ext = p"
  by (auto simp: os_path_splitext_def Let_def split: if_splits)

lemma shutil_move_fresh:
  assumes "\<not> os_path_exists fs dst"
  shows "shutil_move pf fs src dst
         = (if move_fails pf src dst then Inl PermissionError
            else case lookup fs src of
                   None \<Rightarrow> Inl FileNotFoundError
                 | Some Dir \<Rightarrow> Inl IsADirectoryError
                 | Some (File c) \<Rightarrow>
                     (if os_path_isdir fs (butlast dst)
                      then Inr (filter (\<lambda>(q, e). q \<noteq> src \<and> q \<noteq> dst) fs @ [(dst, File c)])
                      else Inl FileNotFoundError))"
  using assms
  by (auto simp: shutil_move_def rename_file_def os_path_isdir_def os_path_exists_def
           split: option.splits entry.splits)

lemma shutil_move_frame:
  assumes "shutil_move pf fs src dst = Inr fs1" and "\<not> os_path_exists fs dst"
    and "p \<noteq> src" and "os_path_exists fs p"
  shows "lookup fs1 p = lookup fs p"
proof -
  from assms(2,4) have "p \<noteq> dst" by auto
  with assms show ?thesis
    by (auto simp: shutil_move_fresh lookup_snoc lookup_filter os_path_exists_def
             split: if_splits option.splits entry.splits)
qed

lemma move_file_frame:
  assumes "p \<noteq> source_dir @ [filename]" and "os_path_exists (disk st) p"
  shows "lookup (disk (move_file pf source_dir filename category st)) p = lookup (disk st) p"
proof (cases "shutil_move pf (disk st) (source_dir @ [filename])
                (choose_dest (disk st) (source_dir @ [category]) filename)")
  case (Inl e)
  then show ?thesis by (simp add: move_file_def)
next
  case (Inr fs1)
  from shutil_move_frame [OF Inr choose_dest_not_exists assms] Inr show ?thesis
    by (simp add: move_file_def)
qed

lemma move_file_lands:
  assumes "lookup (disk st) (source_dir @ [filename]) = Some (File c)"
    and "os_path_isdir (disk st) (source_dir @ [category])"
    and "\<not> move_fails pf (source_dir @ [filename])
            (choose_dest (disk st) (source_dir @ [category]) filename)"
  shows "lookup (disk (move_file pf source_dir filename category st))
           (choose_dest (disk st) (source_dir @ [category]) filename) = Some (File c)
         \<and> lookup (disk (move_file pf source_dir filename category st))
             (source_dir @ [filename]) = None
         \<and> moved_count (move_file pf source_dir filename category st) = moved_count st + 1"
proof -
  let ?dst = "choose_dest (disk st) (source_dir @ [category]) filename"
  obtain x where x: "?dst = (source_dir @ [category]) @ [x]"
    using choose_dest_child by blast
  have ne: "?dst \<noteq> source_dir @ [filename]" using x by simp
  have nex: "lookup (disk st) ?dst = None"
    using choose_dest_not_exists [of "disk st" "source_dir @ [category]" filename]
    by (simp add: os_path_exists_def)
  have par: "os_path_isdir (disk st) (butlast ?dst)"
    using assms(2) by (simp only: x butlast_snoc)
  have nonroot: "?dst \<noteq> []" "source_dir @ [filename] \<noteq> []" using x by simp_all
  from assms(1,3) par nex ne nonroot show ?thesis
    by (simp add: move_file_def Let_def shutil_move_fresh [OF choose_dest_not_exists]
          lookup_snoc lookup_filter)
qed

lemma lookup_append_Some:
  "lookup fs p = Some x \<Longrightarrow> lookup (fs @ extra) p = Some x"
  by (simp add: lookup_def map_add_def split: if_splits)

lemma mkdir_exist_ok_Inr:
  assumes "mkdir_exist_ok fs name = Inr fs1"
  shows "(fs1 = fs \<and> os_path_isdir fs name)
         \<or> (fs1 = fs @ [(name, Dir)] \<and> \<not> os_path_exists fs name \<and> name \<noteq> [])"
  using assms
  by (auto simp: mkdir_exist_ok_def os_mkdir_def os_path_exists_def lookup_def
           split: if_splits option.splits entry.splits sum.splits)

lemma mkdir_exist_ok_appends:
  assumes "mkdir_exist_ok fs name = Inr fs1"
  shows "\<exists>extra. fs1 = fs @ extra \<and> (\<forall>x\<in>set extra. snd x = Dir)"
proof -
  from mkdir_exist_ok_Inr [OF assms] have "fs1 = fs @ [] \<or> fs1 = fs @ [(name, Dir)]"
    by auto
  then show ?thesis
  proof
    assume "fs1 = fs @ []"
    then show ?thesis by (intro exI [of _ "[]"]) simp
  next
    assume "fs1 = fs @ [(name, Dir)]"
    then show ?thesis by (intro exI [of _ "[(name, Dir)]"]) simp
  qed
qed

lemma mkdir_exist_ok_isdir:
  assumes "mkdir_exist_ok fs name = Inr fs1"
  shows "os_path_isdir fs1 name"
  using mkdir_exist_ok_Inr [OF assms]
  by (auto simp: os_path_isdir_def os_path_exists_def lookup_snoc)

lemma os_makedirs_appends:
  "os_makedirs fs name = Inr fs1 \<Longrightarrow> \<exists>extra. fs1 = fs @ extra \<and> (\<forall>x\<in>set extra. snd x = Dir)"
proof (induction fs name arbitrary: fs1 rule: os_makedirs.induct)
  case (1 fs name)
  show ?case
  proof (cases "name \<noteq> [] \<and> \<not> os_path_exists fs (butlast name)")
    case False
    with "1.prems" have "mkdir_exist_ok fs name = Inr fs1"
      by (subst (asm) os_makedirs.simps) simp
    then show ?thesis by (rule mkdir_exist_ok_appends)
  next
    case True
    show ?thesis
    proof (cases "os_makedirs fs (butlast name)")
      case (Inl e)
      with True "1.prems" have "mkdir_exist_ok fs name = Inr fs1"
        by (subst (asm) os_makedirs.simps) (simp split: if_splits)
      then show ?thesis by (rule mkdir_exist_ok_appends)
    next
      case (Inr fs0)
      with True "1.prems" have last: "mkdir_exist_ok fs0 name = Inr fs1"
        by (subst (asm) os_makedirs.simps) simp
      from "1.IH" [OF True Inr] obtain extra0
        where e0: "fs0 = fs @ extra0" "\<forall>x\<in>set extra0. snd x = Dir" by blast
      from mkdir_exist_ok_appends [OF last] obtain extra1
        where e1: "fs1 = fs0 @ extra1" "\<forall>x\<in>set extra1. snd x = Dir" by blast
      from e0 e1 have "fs1 = fs @ (extra0 @ extra1)"
        and "\<forall>x\<in>set (extra0 @ extra1). snd x = Dir"
        by auto
      then show ?thesis by blast
    qed
  qed
qed

lemma os_makedirs_isdir:
  assumes "os_makedirs fs name = Inr fs1"
  shows "os_path_isdir fs1 name"
proof (cases "name \<noteq> [] \<and> \<not> os_path_exists fs (butlast name)")
  case False
  with assms have "mkdir_exist_ok fs name = Inr fs1"
    by (subst (asm) os_makedirs.simps) simp
  then show ?thesis by (rule mkdir_exist_ok_isdir)
next
  case True
  show ?thesis
  proof (cases "os_makedirs fs (butlast name)")
    case (Inl e)
    with True assms have "mkdir_exist_ok fs name = Inr fs1"
      by (subst (asm) os_makedirs.simps) (simp split: if_splits)
    then show ?thesis by (rule mkdir_exist_ok_isdir)
  next
    case (Inr fs0)
    with True assms have "mkdir_exist_ok fs0 name = Inr fs1"
      by (subst (asm) os_makedirs.simps) simp
    then show ?thesis by (rule mkdir_exist_ok_isdir)
  qed
qed

text \<open>Inside a directory, \<^verbatim>\<open>os.makedirs\<close> is a single \<^verbatim>\<open>mkdir\<close>.\<close>

lemma os_makedirs_child:
  assumes "os_path_isdir fs dir"
  shows "os_makedirs fs (dir @ [name])
         = (if os_path_isdir fs (dir @ [name]) then Inr fs
            else if os_path_exists fs (dir @ [name]) then Inl FileExistsError
            else Inr (fs @ [(dir @ [name], Dir)]))"
proof -
  from assms have "os_path_exists fs dir"
    by (simp add: os_path_isdir_def os_path_exists_def)
  then have "os_makedirs fs (dir @ [name]) = mkdir_exist_ok fs (dir @ [name])"
    by (subst os_makedirs.simps) simp
  also have "\<dots> = (if os_path_isdir fs (dir @ [name]) then Inr fs
            else if os_path_exists fs (dir @ [name]) then Inl FileExistsError
            else Inr (fs @ [(dir @ [name], Dir)]))"
    using assms
    by (auto simp: mkdir_exist_ok_def os_mkdir_def os_path_isdir_def os_path_exists_def)
  finally show ?thesis .
qed

lemma os_makedirs_keeps:
  assumes "os_makedirs fs name = Inr fs1" and "lookup fs p = Some x"
  shows "lookup fs1 p = Some x"
  using os_makedirs_appends [OF assms(1)] assms(2) by (auto simp: lookup_append_Some)

lemma get_file_hash_None:
  "get_file_hash pf fs p = (None, lg) \<Longrightarrow> \<exists>e. lg = [ErrorHashing p e]"
  by (auto simp: get_file_hash_def split: sum.splits)

lemma move_file_bookkeeping:
  "file_hashes (move_file pf source_dir filename category st) = file_hashes st"
  "duplicate_count (move_file pf source_dir filename category st) = duplicate_count st"
  "\<exists>ev. logfile (move_file pf source_dir filename category st) = logfile st @ [ev]"
  by (auto simp: move_file_def Let_def split: sum.splits)

lemma move_file_keeps_content:
  assumes "lookup (disk st) (source_dir @ [filename]) = Some (File c)"
  shows "lookup (disk (move_file pf source_dir filename category st)) (source_dir @ [filename])
           = Some (File c)
         \<or> lookup (disk (move_file pf source_dir filename category st))
             (choose_dest (disk st) (source_dir @ [category]) filename) = Some (File c)"
proof (cases "shutil_move pf (disk st) (source_dir @ [filename])
                (choose_dest (disk st) (source_dir @ [category]) filename)")
  case (Inl e)
  with assms show ?thesis by (simp add: move_file_def)
next
  case (Inr fs1)
  let ?dst = "choose_dest (disk st) (source_dir @ [category]) filename"
  have nex: "lookup (disk st) ?dst = None"
    using choose_dest_not_exists [of "disk st" "source_dir @ [category]" filename]
    by (simp add: os_path_exists_def)
  from Inr assms have "fs1 = filter (\<lambda>(q, e). q \<noteq> source_dir @ [filename] \<and> q \<noteq> ?dst) (disk st)
                             @ [(?dst, File c)]"
    by (auto simp: shutil_move_fresh [OF choose_dest_not_exists] split: if_splits)
  moreover have "?dst \<noteq> []"
    using choose_dest_child [of "disk st" "source_dir @ [category]" filename] by auto
  ultimately have "lookup fs1 ?dst = Some (File c)"
    using nex by (simp add: lookup_snoc lookup_filter split: option.splits if_splits)
  with Inr show ?thesis by (simp add: move_file_def)
qed

lemma lookup_append_dirs:
  assumes "\<forall>x\<in>set extra. snd x = Dir" and "lookup (fs @ extra) p = Some (File c)"
  shows "lookup fs p = Some (File c)"
proof (cases "lookup fs p")
  case None
  with assms(2) have "map_of extra p = Some (File c)"
    by (auto simp: lookup_def map_add_def split: if_splits option.splits)
  then have "(p, File c) \<in> set extra" by (rule map_of_SomeD)
  with assms(1) show ?thesis by auto
next
  case (Some x)
  from lookup_append_Some [OF Some, of extra] assms(2) Some show ?thesis by simp
qed

lemma os_makedirs_no_new_file:
  assumes "os_makedirs fs name = Inr fs1" and "lookup fs1 p = Some (File c)"
  shows "lookup fs p = Some (File c)"
  using os_makedirs_appends [OF assms(1)] assms(2) lookup_append_dirs by blast

lemma os_remove_Inr:
  "os_remove pf fs p = Inr fs1 \<Longrightarrow> fs1 = filter (\<lambda>(q, e). q \<noteq> p) fs \<and> p \<noteq> []"
  by (auto simp: os_remove_def lookup_def split: option.splits entry.splits if_splits)

text \<open>What a relocation step leaves on the disk.\<close>

lemma lookup_root: "lookup fs [] = Some Dir"
  by (simp add: lookup_def)

lemma lookup_moved:
  assumes "lookup fs dst = None"
  shows "lookup (filter (\<lambda>(q, e). q \<noteq> src \<and> q \<noteq> dst) fs @ [(dst, File c)]) p
         = (if p = dst then Some (File c) else if p = src \<and> src \<noteq> [] then None else lookup fs p)"
proof -
  from assms have "dst \<noteq> []" by (auto simp: lookup_def)
  with assms show ?thesis
    by (cases "lookup fs p") (auto simp: lookup_snoc lookup_filter lookup_root)
qed

lemma move_file_cases:
  obtains
    (failed) e where
      "move_file pf source_dir filename category st
       = st\<lparr>logfile := logfile st @ [ErrorMove filename e]\<rparr>"
  | (moved) c x where
      "lookup (disk st) (source_dir @ [filename]) = Some (File c)"
      "lookup (disk st) (source_dir @ [category, x]) = None"
      "choose_dest (disk st) (source_dir @ [category]) filename = source_dir @ [category, x]"
      "move_file pf source_dir filename category st
       = st\<lparr>disk := filter (\<lambda>(q, e). q \<noteq> source_dir @ [filename]
                                    \<and> q \<noteq> source_dir @ [category, x]) (disk st)
                        @ [(source_dir @ [category, x], File c)],
             logfile := logfile st @ [InfoMoved filename category],
             moved_count := moved_count st + 1\<rparr>"
proof (cases "shutil_move pf (disk st) (source_dir @ [filename])
                (choose_dest (disk st) (source_dir @ [category]) filename)")
  case (Inl e)
  then show thesis by (intro failed [of e]) (simp add: move_file_def)
next
  case (Inr fs1)
  let ?dst = "choose_dest (disk st) (source_dir @ [category]) filename"
  obtain x where x: "?dst = source_dir @ [category, x]"
    using choose_dest_child [of "disk st" "source_dir @ [category]" filename] by auto
  have nex: "lookup (disk st) ?dst = None"
    using choose_dest_not_exists [of "disk st" "source_dir @ [category]" filename]
    by (simp add: os_path_exists_def)
  from Inr obtain c where c: "lookup (disk st) (source_dir @ [filename]) = Some (File c)"
    and fs1: "fs1 = filter (\<lambda>(q, e). q \<noteq> source_dir @ [filename] \<and> q \<noteq> ?dst) (disk st)
                     @ [(?dst, File c)]"
    by (simp add: shutil_move_fresh [OF choose_dest_not_exists]
             split: if_splits option.splits entry.splits)
  show thesis
  proof (rule moved [of c x])
    show "lookup (disk st) (source_dir @ [filename]) = Some (File c)" by (rule c)
    show "lookup (disk st) (source_dir @ [category, x]) = None" using nex x by simp
    show "?dst = source_dir @ [category, x]" by (rule x)
    show "move_file pf source_dir filename category st
       = st\<lparr>disk := filter (\<lambda>(q, e). q \<noteq> source_dir @ [filename]
                                    \<and> q \<noteq> source_dir @ [category, x]) (disk st)
                        @ [(source_dir @ [category, x], File c)],
             logfile := logfile st @ [InfoMoved filename category],
             moved_count := moved_count st + 1\<rparr>"
      using Inr fs1 x by (simp add: move_file_def)
  qed
qed

text \<open>The ways through lines 76 to 83, and through the whole loop body.\<close>

lemma remove_duplicate_or_move_cases:
  obtains
    (refused) h lg e where
      "get_file_hash pf (disk st) (source_dir @ [filename]) = (Some h, lg)"
      "h \<noteq> []" "h \<in> fst ` set (file_hashes st)"
      "os_remove pf (disk st) (source_dir @ [filename]) = Inl e"
      "remove_duplicate_or_move pf source_dir filename category st
       = (Some e, st\<lparr>logfile := logfile st @ lg @ [WarningDuplicate filename]\<rparr>)"
  | (duplicate) h lg fs1 where
      "get_file_hash pf (disk st) (source_dir @ [filename]) = (Some h, lg)"
      "h \<noteq> []" "h \<in> fst ` set (file_hashes st)"
      "os_remove pf (disk st) (source_dir @ [filename]) = Inr fs1"
      "remove_duplicate_or_move pf source_dir filename category st
       = (None, st\<lparr>disk := fs1, logfile := logfile st @ lg @ [WarningDuplicate filename],
                    duplicate_count := duplicate_count st + 1\<rparr>)"
  | (fresh) h lg where
      "get_file_hash pf (disk st) (source_dir @ [filename]) = (Some h, lg)"
      "h \<noteq> []" "h \<notin> fst ` set (file_hashes st)"
      "remove_duplicate_or_move pf source_dir filename category st
       = (None, move_file pf source_dir filename category
                  (st\<lparr>logfile := logfile st @ lg,
                      file_hashes := (h, source_dir @ [filename]) # file_hashes st\<rparr>))"
  | (unhashed) file_hash lg where
      "get_file_hash pf (disk st) (source_dir @ [filename]) = (file_hash, lg)"
      "\<not> truthy file_hash"
      "remove_duplicate_or_move pf source_dir filename category st
       = (None, move_file pf source_dir filename category (st\<lparr>logfile := logfile st @ lg\<rparr>))"
proof -
  obtain file_hash lg
    where gh: "get_file_hash pf (disk st) (source_dir @ [filename]) = (file_hash, lg)"
    by (cases "get_file_hash pf (disk st) (source_dir @ [filename])")
  show thesis
  proof (cases "truthy file_hash")
    case False
    with gh show thesis
      by (intro unhashed [of file_hash lg]) (simp_all add: remove_duplicate_or_move_def)
  next
    case True
    then obtain h where h: "file_hash = Some h" "h \<noteq> []"
      by (auto simp: truthy_def split: option.splits)
    show thesis
    proof (cases "h \<in> fst ` set (file_hashes st)")
      case False
      with gh h True show thesis
        by (intro fresh [of h lg]) (simp_all add: remove_duplicate_or_move_def)
    next
      case known: True
      show thesis
      proof (cases "os_remove pf (disk st) (source_dir @ [filename])")
        case (Inl e)
        with gh h True known show thesis
          by (intro refused [of h lg e]) (simp_all add: remove_duplicate_or_move_def)
      next
        case (Inr fs1)
        with gh h True known show thesis
          by (intro duplicate [of h lg fs1]) (simp_all add: remove_duplicate_or_move_def)
      qed
    qed
  qed
qed

lemma organize_entry_cases:
  obtains
    (skipped)
      "\<not> os_path_isfile (disk st) (source_dir @ [filename])"
      "organize_entry pf source_dir dd filename st = (None, st)"
  | (no_folder) e where
      "os_path_isfile (disk st) (source_dir @ [filename])"
      "os_makedirs (disk st) (source_dir @ [category_of filename]) = Inl e"
      "organize_entry pf source_dir dd filename st = (Some e, st)"
  | (deduplicate) fs1 where
      "os_path_isfile (disk st) (source_dir @ [filename])"
      "os_makedirs (disk st) (source_dir @ [category_of filename]) = Inr fs1"
      "dd"
      "organize_entry pf source_dir dd filename st
       = remove_duplicate_or_move pf source_dir filename (category_of filename) (st\<lparr>disk := fs1\<rparr>)"
  | (relocate) fs1 where
      "os_path_isfile (disk st) (source_dir @ [filename])"
      "os_makedirs (disk st) (source_dir @ [category_of filename]) = Inr fs1"
      "\<not> dd"
      "organize_entry pf source_dir dd filename st
       = (None, move_file pf source_dir filename (category_of filename) (st\<lparr>disk := fs1\<rparr>))"
proof (cases "os_path_isfile (disk st) (source_dir @ [filename])")
  case False
  then show thesis by (intro skipped) (simp_all add: organize_entry_def)
next
  case True
  show thesis
  proof (cases "os_makedirs (disk st) (source_dir @ [category_of filename])")
    case (Inl e)
    with True show thesis by (intro no_folder [of e]) (simp_all add: organize_entry_def)
  next
    case (Inr fs1)
    show thesis
    proof (cases dd)
      case True
      with Inr \<open>os_path_isfile (disk st) (source_dir @ [filename])\<close> show thesis
        by (intro deduplicate [of fs1]) (simp_all add: organize_entry_def)
    next
      case False
      with Inr True show thesis
        by (intro relocate [of fs1]) (simp_all add: organize_entry_def)
    qed
  qed
qed

text \<open>
  What one relocation and one pass of the loop body do to the top level of the source
  directory: no regular file appears there, the directory stays, the log only grows, and
  a file that was moved without an error line is gone from the top level.
\<close>

lemma top_level_shrinks_refl: "top_level_shrinks source_dir st st"
  by (simp add: top_level_shrinks_def)

lemma top_level_shrinks_trans:
  assumes "top_level_shrinks source_dir st st1" and "top_level_shrinks source_dir st1 st2"
  shows "top_level_shrinks source_dir st st2"
proof -
  from assms obtain l1 l2 where "logfile st1 = logfile st @ l1" "logfile st2 = logfile st1 @ l2"
    by (auto simp: top_level_shrinks_def)
  then have "logfile st2 = logfile st @ (l1 @ l2)" by simp
  then have "\<exists>l. logfile st2 = logfile st @ l" by blast
  with assms show ?thesis
    by (simp add: top_level_shrinks_def)
qed

lemma top_level_shrinks_same_disk:
  assumes "disk st1 = disk st" and "logfile st1 = logfile st @ l"
  shows "top_level_shrinks source_dir st st1"
  using assms by (simp add: top_level_shrinks_def)

lemma isfile_filter:
  "os_path_isfile (filter (\<lambda>(q, e). P q) fs) p \<Longrightarrow> os_path_isfile fs p"
  by (auto simp: os_path_isfile_def lookup_filter split: if_splits option.splits entry.splits)

lemma top_level_shrinks_makedirs:
  assumes "os_makedirs (disk st) name = Inr fs1"
  shows "top_level_shrinks source_dir st (st\<lparr>disk := fs1\<rparr>)"
proof -
  have "os_path_isfile (disk st) p" if "os_path_isfile fs1 p" for p
  proof -
    from that obtain c where "lookup fs1 p = Some (File c)"
      by (auto simp: os_path_isfile_def split: option.splits entry.splits)
    from os_makedirs_no_new_file [OF assms this] show ?thesis
      by (simp add: os_path_isfile_def)
  qed
  moreover have "os_path_isdir fs1 source_dir" if "os_path_isdir (disk st) source_dir"
    using os_makedirs_keeps [OF assms] that by (simp add: os_path_isdir_def)
  ultimately show ?thesis
    by (simp add: top_level_shrinks_def)
qed

lemma top_level_shrinks_remove:
  assumes "os_remove pf (disk st) p = Inr fs1" and "p \<noteq> source_dir"
    and "disk st1 = fs1" and "logfile st1 = logfile st @ l"
  shows "top_level_shrinks source_dir st st1"
proof -
  from os_remove_Inr [OF assms(1)] have fs1: "fs1 = filter (\<lambda>(q, e). q \<noteq> p) (disk st)"
    by simp
  have "os_path_isfile (disk st) q" if "os_path_isfile fs1 q" for q
    using that unfolding fs1 by (rule isfile_filter)
  moreover have "os_path_isdir fs1 source_dir" if "os_path_isdir (disk st) source_dir"
    using that assms(2) unfolding fs1 by (simp add: os_path_isdir_def lookup_filter)
  ultimately show ?thesis
    using assms(3,4) by (simp add: top_level_shrinks_def)
qed

lemma top_level_shrinks_move_file:
  "top_level_shrinks source_dir st (move_file pf source_dir filename category st)"
proof (cases rule: move_file_cases [of pf source_dir filename category st])
  case (failed e)
  then show ?thesis by (simp add: top_level_shrinks_def)
next
  case (moved c x)
  then show ?thesis
    by (simp add: top_level_shrinks_def os_path_isfile_def os_path_isdir_def lookup_moved)
qed

lemma move_file_gone:
  assumes "\<forall>n e. ErrorMove n e \<notin> set (logfile (move_file pf source_dir filename category st))"
  shows "\<not> os_path_isfile (disk (move_file pf source_dir filename category st))
           (source_dir @ [filename])"
proof (cases rule: move_file_cases [of pf source_dir filename category st])
  case (failed e)
  then have "ErrorMove filename e \<in> set (logfile (move_file pf source_dir filename category st))"
    by simp
  with assms show ?thesis by blast
next
  case (moved c x)
  then show ?thesis
    by (simp add: os_path_isfile_def lookup_moved)
qed

lemma top_level_shrinks_remove_duplicate_or_move:
  "top_level_shrinks source_dir st
     (snd (remove_duplicate_or_move pf source_dir filename category st))"
proof (cases rule: remove_duplicate_or_move_cases [of pf st source_dir filename category])
  case (refused h lg e)
  then show ?thesis by (simp add: top_level_shrinks_def)
next
  case (duplicate h lg fs1)
  have "top_level_shrinks source_dir st
          (st\<lparr>disk := fs1, logfile := logfile st @ lg @ [WarningDuplicate filename],
              duplicate_count := duplicate_count st + 1\<rparr>)"
    by (rule top_level_shrinks_remove [OF duplicate(4)]) simp_all
  with duplicate(5) show ?thesis by simp
next
  case (fresh h lg)
  let ?st1 = "st\<lparr>logfile := logfile st @ lg,
                 file_hashes := (h, source_dir @ [filename]) # file_hashes st\<rparr>"
  have "top_level_shrinks source_dir st ?st1"
    by (rule top_level_shrinks_same_disk [of _ _ lg]) simp_all
  from top_level_shrinks_trans [OF this top_level_shrinks_move_file] fresh(4)
  show ?thesis by simp
next
  case (unhashed file_hash lg)
  let ?st1 = "st\<lparr>logfile := logfile st @ lg\<rparr>"
  have "top_level_shrinks source_dir st ?st1"
    by (rule top_level_shrinks_same_disk [of _ _ lg]) simp_all
  from top_level_shrinks_trans [OF this top_level_shrinks_move_file] unhashed(3)
  show ?thesis by simp
qed

lemma remove_duplicate_or_move_gone:
  assumes "fst (remove_duplicate_or_move pf source_dir filename category st) = None"
    and "\<forall>n e. ErrorMove n e
           \<notin> set (logfile (snd (remove_duplicate_or_move pf source_dir filename category st)))"
  shows "\<not> os_path_isfile (disk (snd (remove_duplicate_or_move pf source_dir filename category st)))
           (source_dir @ [filename])"
proof (cases rule: remove_duplicate_or_move_cases [of pf st source_dir filename category])
  case (refused h lg e)
  with assms(1) show ?thesis by simp
next
  case (duplicate h lg fs1)
  from os_remove_Inr [OF duplicate(4)] have "\<not> os_path_isfile fs1 (source_dir @ [filename])"
    by (simp add: os_path_isfile_def lookup_filter)
  with duplicate(5) show ?thesis by simp
next
  case (fresh h lg)
  with assms(2) move_file_gone show ?thesis by simp
next
  case (unhashed file_hash lg)
  with assms(2) move_file_gone show ?thesis by simp
qed

lemma top_level_shrinks_organize_entry:
  "top_level_shrinks source_dir st (snd (organize_entry pf source_dir dd filename st))"
proof (cases rule: organize_entry_cases [of st source_dir filename pf dd])
  case skipped
  then show ?thesis by (simp add: top_level_shrinks_refl)
next
  case (no_folder e)
  then show ?thesis by (simp add: top_level_shrinks_refl)
next
  case (deduplicate fs1)
  from top_level_shrinks_trans [OF top_level_shrinks_makedirs [OF deduplicate(2)]
      top_level_shrinks_remove_duplicate_or_move] deduplicate(4)
  show ?thesis by simp
next
  case (relocate fs1)
  from top_level_shrinks_trans [OF top_level_shrinks_makedirs [OF relocate(2)]
      top_level_shrinks_move_file] relocate(4)
  show ?thesis by simp
qed

lemma organize_entry_gone:
  assumes "fst (organize_entry pf source_dir dd filename st) = None"
    and "\<forall>n e. ErrorMove n e \<notin> set (logfile (snd (organize_entry pf source_dir dd filename st)))"
  shows "\<not> os_path_isfile (disk (snd (organize_entry pf source_dir dd filename st)))
           (source_dir @ [filename])"
proof (cases rule: organize_entry_cases [of st source_dir filename pf dd])
  case skipped
  then show ?thesis by simp
next
  case (no_folder e)
  with assms(1) show ?thesis by simp
next
  case (deduplicate fs1)
  with assms remove_duplicate_or_move_gone show ?thesis by simp
next
  case (relocate fs1)
  with assms(2) move_file_gone show ?thesis by simp
qed

lemma top_level_shrinks_organize_loop:
  "top_level_shrinks source_dir st (snd (organize_loop pf source_dir dd names st))"
proof (induction names arbitrary: st)
  case Nil
  show ?case by (simp add: top_level_shrinks_refl)
next
  case (Cons n names)
  obtain x st1 where r: "organize_entry pf source_dir dd n st = (x, st1)"
    by (cases "organize_entry pf source_dir dd n st")
  from top_level_shrinks_organize_entry [of source_dir st pf dd n] r
  have one: "top_level_shrinks source_dir st st1" by simp
  show ?case
  proof (cases x)
    case None
    with r have "organize_loop pf source_dir dd (n # names) st
                 = organize_loop pf source_dir dd names st1"
      by simp
    with top_level_shrinks_trans [OF one Cons.IH [of st1]] show ?thesis by simp
  next
    case (Some e)
    with r one show ?thesis by simp
  qed
qed

lemma organize_loop_clears:
  assumes "organize_loop pf source_dir dd names st = (None, st')"
    and "\<forall>n e. ErrorMove n e \<notin> set (logfile st')"
  shows "\<forall>n\<in>set names. \<not> os_path_isfile (disk st') (source_dir @ [n])"
  using assms
proof (induction names arbitrary: st)
  case Nil
  show ?case by simp
next
  case (Cons n names)
  obtain x st1 where r: "organize_entry pf source_dir dd n st = (x, st1)"
    by (cases "organize_entry pf source_dir dd n st")
  with Cons.prems(1) have x: "x = None"
    and rest: "organize_loop pf source_dir dd names st1 = (None, st')"
    by (auto split: option.splits)
  from top_level_shrinks_organize_loop [of source_dir st1 pf dd names] rest
  have later: "top_level_shrinks source_dir st1 st'" by simp
  then obtain l where "logfile st' = logfile st1 @ l"
    by (auto simp: top_level_shrinks_def)
  with Cons.prems(2) have "\<forall>m e. ErrorMove m e \<notin> set (logfile st1)" by simp
  with organize_entry_gone [of pf source_dir dd n st] r x
  have "\<not> os_path_isfile (disk st1) (source_dir @ [n])" by simp
  with later have "\<not> os_path_isfile (disk st') (source_dir @ [n])"
    by (auto simp: top_level_shrinks_def)
  with Cons.IH [OF rest Cons.prems(2)] show ?case by simp
qed

lemma isfile_listed:
  assumes "os_path_isfile fs (dir @ [m])"
  shows "m \<in> set (children fs dir)"
proof -
  from assms obtain c where "map_of fs (dir @ [m]) = Some (File c)"
    by (auto simp: os_path_isfile_def lookup_def split: option.splits entry.splits)
  then have "(dir @ [m], File c) \<in> set fs" by (rule map_of_SomeD)
  then have "(dir @ [m], File c) \<in> set (filter (\<lambda>(q, e). q \<noteq> [] \<and> butlast q = dir) fs)"
    by simp
  then have "(\<lambda>(q, e). last q) (dir @ [m], File c) \<in> set (children fs dir)"
    unfolding children_def set_map by (rule imageI)
  then show ?thesis by simp
qed

lemma organize_loop_skips:
  assumes "\<forall>n\<in>set names. \<not> os_path_isfile (disk st) (source_dir @ [n])"
  shows "organize_loop pf source_dir dd names st = (None, st)"
  using assms by (induction names) (simp_all add: organize_entry_def)

lemma removed_only_below_refl: "removed_only_below T fs fs"
  by (simp add: removed_only_below_def)

lemma removed_only_below_trans:
  assumes "removed_only_below T fs fs1" and "removed_only_below T fs1 fs2"
  shows "removed_only_below T fs fs2"
  unfolding removed_only_below_def
proof
  fix p
  from assms(2) have "lookup fs2 p = lookup fs1 p
      \<or> (lookup fs2 p = None \<and> (\<exists>t\<in>T. strict_prefix t p))"
    by (simp add: removed_only_below_def)
  moreover from assms(1) have "lookup fs1 p = lookup fs p
      \<or> (lookup fs1 p = None \<and> (\<exists>t\<in>T. strict_prefix t p))"
    by (simp add: removed_only_below_def)
  ultimately show "lookup fs2 p = lookup fs p
      \<or> (lookup fs2 p = None \<and> (\<exists>t\<in>T. strict_prefix t p))"
    by auto
qed

lemma removed_only_below_mono:
  assumes "removed_only_below T fs fs1" and "T \<subseteq> T'"
  shows "removed_only_below T' fs fs1"
  using assms unfolding removed_only_below_def by blast

lemma removed_only_below_filter:
  assumes "\<And>q. \<not> K q \<Longrightarrow> strict_prefix t q"
  shows "removed_only_below {t} fs (filter (\<lambda>(q, e). K q) fs)"
  using assms by (auto simp: removed_only_below_def lookup_filter)

lemma delete_file_disk:
  "disk (delete_file pf p st) = disk st
   \<or> disk (delete_file pf p st) = filter (\<lambda>(q, e). q \<noteq> p) (disk st)"
proof (cases "os_path_getsize (disk st) p")
  case (Inl e)
  then show ?thesis by (simp add: delete_file_def)
next
  case (Inr n)
  show ?thesis
  proof (cases "os_remove pf (disk st) p")
    case (Inl e)
    with Inr show ?thesis by (simp add: delete_file_def)
  next
    case rm: (Inr fs1)
    from os_remove_Inr [OF rm] Inr rm show ?thesis by (simp add: delete_file_def)
  qed
qed

lemma removed_only_below_delete_file:
  assumes "prefix t root"
  shows "removed_only_below {t} (disk st) (disk (delete_file pf (root @ [f]) st))"
proof -
  have "removed_only_below {t} (disk st) (filter (\<lambda>(q, e). q \<noteq> root @ [f]) (disk st))"
  proof (rule removed_only_below_filter)
    fix q assume "\<not> q \<noteq> root @ [f]"
    with assms show "strict_prefix t q"
      by (auto simp: strict_prefix_def prefix_def)
  qed
  with delete_file_disk [of pf "root @ [f]" st] show ?thesis
    by (auto simp: removed_only_below_refl)
qed

lemma removed_only_below_delete_dir:
  assumes "prefix t root"
  shows "removed_only_below {t} (disk st) (disk (delete_dir pf (root @ [d]) st))"
proof (cases "os_path_isdir (disk st) (root @ [d])")
  case False
  then show ?thesis
    by (simp add: delete_dir_def shutil_rmtree_def removed_only_below_refl)
next
  case True
  have "removed_only_below {t} (disk st)
          (filter (\<lambda>(q, e). \<not> prefix (root @ [d]) q \<or> sticky pf (disk st) q) (disk st))"
  proof (rule removed_only_below_filter)
    fix q assume "\<not> (\<not> prefix (root @ [d]) q \<or> sticky pf (disk st) q)"
    then have "prefix (root @ [d]) q" by simp
    with assms show "strict_prefix t q"
      by (auto simp: strict_prefix_def prefix_def)
  qed
  with True show ?thesis
    by (simp add: delete_dir_def shutil_rmtree_def)
qed

lemma removed_only_below_files:
  assumes "prefix t root"
  shows "removed_only_below {t} (disk st)
           (disk (fold (\<lambda>file. delete_file pf (root @ [file])) files st))"
proof (induction files arbitrary: st)
  case Nil
  show ?case by (simp add: removed_only_below_refl)
next
  case (Cons f files)
  from removed_only_below_trans
    [OF removed_only_below_delete_file [OF assms] Cons.IH [of "delete_file pf (root @ [f]) st"]]
  show ?case by simp
qed

lemma removed_only_below_dirs:
  assumes "prefix t root"
  shows "removed_only_below {t} (disk st)
           (disk (fold (\<lambda>dir. delete_dir pf (root @ [dir])) dirs st))"
proof (induction dirs arbitrary: st)
  case Nil
  show ?case by (simp add: removed_only_below_refl)
next
  case (Cons d dirs)
  from removed_only_below_trans
    [OF removed_only_below_delete_dir [OF assms] Cons.IH [of "delete_dir pf (root @ [d]) st"]]
  show ?case by simp
qed

lemma removed_only_below_triple:
  assumes "prefix t (fst triple)"
  shows "removed_only_below {t} (disk st) (disk (purge_triple pf triple st))"
proof -
  obtain root dirs files where tr: "triple = (root, dirs, files)"
    by (cases triple)
  with assms have p: "prefix t root" by simp
  from removed_only_below_trans
    [OF removed_only_below_files [OF p] removed_only_below_dirs [OF p]]
  show ?thesis by (simp add: tr purge_triple_def)
qed

lemma os_walk_roots:
  "triple \<in> set (os_walk fs tdir) \<Longrightarrow> prefix tdir (fst triple)"
proof (induction fs tdir rule: os_walk.induct)
  case (1 fs tdir)
  show ?case
  proof (cases "os_path_isdir fs tdir")
    case False
    with "1.prems" show ?thesis by (subst (asm) os_walk.simps) simp
  next
    case True
    with "1.prems" have "triple = (tdir, subdirs fs tdir, nondirs fs tdir)
        \<or> (\<exists>d\<in>set (subdirs fs tdir). triple \<in> set (os_walk fs (tdir @ [d])))"
      by (subst (asm) os_walk.simps) auto
    then show ?thesis
    proof
      assume "triple = (tdir, subdirs fs tdir, nondirs fs tdir)"
      then show ?thesis by simp
    next
      assume "\<exists>d\<in>set (subdirs fs tdir). triple \<in> set (os_walk fs (tdir @ [d]))"
      then obtain d where d: "d \<in> set (subdirs fs tdir)"
        and "triple \<in> set (os_walk fs (tdir @ [d]))" by blast
      with "1.IH" [OF True d] have "prefix (tdir @ [d]) (fst triple)" by simp
      then show ?thesis by (auto simp: prefix_def)
    qed
  qed
qed

lemma removed_only_below_triples:
  assumes "\<forall>triple\<in>set triples. prefix t (fst triple)"
  shows "removed_only_below {t} (disk st) (disk (fold (purge_triple pf) triples st))"
  using assms
proof (induction triples arbitrary: st)
  case Nil
  show ?case by (simp add: removed_only_below_refl)
next
  case (Cons triple triples)
  then have "prefix t (fst triple)" and "\<forall>x\<in>set triples. prefix t (fst x)" by simp_all
  from removed_only_below_trans
    [OF removed_only_below_triple [OF this(1)] Cons.IH [OF this(2), of "purge_triple pf triple st"]]
  show ?case by simp
qed

lemma removed_only_below_location:
  "removed_only_below {t} (disk st) (disk (purge_location pf t st))"
proof (cases "os_path_exists (disk st) t")
  case False
  then show ?thesis by (simp add: purge_location_def removed_only_below_refl)
next
  case True
  have "\<forall>triple\<in>set (os_walk (disk st) t). prefix t (fst triple)"
    using os_walk_roots by blast
  from removed_only_below_triples [OF this] True show ?thesis
    by (simp add: purge_location_def)
qed

lemma removed_only_below_locations:
  "removed_only_below (set ts) (disk st) (disk (fold (purge_location pf) ts st))"
proof (induction ts arbitrary: st)
  case Nil
  show ?case by (simp add: removed_only_below_refl)
next
  case (Cons t ts)
  have one: "removed_only_below (set (t # ts)) (disk st) (disk (purge_location pf t st))"
    by (rule removed_only_below_mono [OF removed_only_below_location]) simp
  have rest: "removed_only_below (set (t # ts)) (disk (purge_location pf t st))
                (disk (fold (purge_location pf) ts (purge_location pf t st)))"
    by (rule removed_only_below_mono [OF Cons.IH]) auto
  from removed_only_below_trans [OF one rest] show ?case by simp
qed

text \<open>The category of a file name.\<close>

lemma find_category_range:
  "find_category cs file_ext d \<in> insert d (fst ` set cs)"
  by (induction cs file_ext d rule: find_category.induct) auto

lemma category_of_known: "category_of n \<in> set (map fst FILE_CATEGORIES)"
proof -
  have "''Others'' \<in> fst ` set FILE_CATEGORIES"
    by (simp add: FILE_CATEGORIES_def)
  moreover have "find_category FILE_CATEGORIES (str_lower (snd (os_path_splitext n))) ''Others''
      \<in> insert ''Others'' (fst ` set FILE_CATEGORIES)"
    by (rule find_category_range)
  ultimately have "find_category FILE_CATEGORIES (str_lower (snd (os_path_splitext n))) ''Others''
      \<in> fst ` set FILE_CATEGORIES"
    by (simp add: insert_absorb)
  then show ?thesis
    by (simp add: category_of_def Let_def)
qed

lemma find_category_none:
  "\<forall>x\<in>set cs. file_ext \<notin> set (snd x) \<Longrightarrow> find_category cs file_ext d = d"
  by (induction cs file_ext d rule: find_category.induct) auto

lemma category_of_others:
  assumes "\<forall>x\<in>set FILE_CATEGORIES. str_lower (snd (os_path_splitext n)) \<notin> set (snd x)"
  shows "category_of n = ''Others''"
  using find_category_none [OF assms] by (simp add: category_of_def Let_def)

lemma find_category_table:
  assumes "(cat, exts) \<in> set FILE_CATEGORIES" and "file_ext \<in> set exts"
  shows "find_category FILE_CATEGORIES file_ext d = cat"
proof -
  have "\<forall>x\<in>set FILE_CATEGORIES. \<forall>e\<in>set (snd x). find_category FILE_CATEGORIES e d = fst x"
    by code_simp
  then have "\<forall>e\<in>set (snd (cat, exts)). find_category FILE_CATEGORIES e d = fst (cat, exts)"
    using assms(1) by (rule bspec)
  with assms(2) show ?thesis by simp
qed

lemma category_of_listed:
  assumes "(cat, exts) \<in> set FILE_CATEGORIES"
    and "str_lower (snd (os_path_splitext n)) \<in> set exts"
  shows "category_of n = cat"
  using find_category_table [OF assms] by (simp add: category_of_def Let_def)

text \<open>The category folder: created, or already there.\<close>

lemma makedirs_category:
  assumes "os_path_isdir fs dir" and "\<not> os_path_isfile fs (dir @ [cat])"
  obtains fs1 where "os_makedirs fs (dir @ [cat]) = Inr fs1"
    and "\<And>p. lookup fs1 p = (if p = dir @ [cat] then Some Dir else lookup fs p)"
    and "distinct (map fst fs) \<Longrightarrow> distinct (map fst fs1)"
proof (cases "os_path_isdir fs (dir @ [cat])")
  case True
  show thesis
  proof (rule that [of fs])
    show "os_makedirs fs (dir @ [cat]) = Inr fs"
      using True by (simp add: os_makedirs_child [OF assms(1)])
    show "lookup fs p = (if p = dir @ [cat] then Some Dir else lookup fs p)" for p
      using True by (simp add: os_path_isdir_def)
    show "distinct (map fst fs)" if "distinct (map fst fs)"
      by (rule that)
  qed
next
  case False
  with assms(2) have nex: "lookup fs (dir @ [cat]) = None"
    by (cases "lookup fs (dir @ [cat])")
       (auto simp: os_path_isdir_def os_path_isfile_def split: entry.splits)
  show thesis
  proof (rule that [of "fs @ [(dir @ [cat], Dir)]"])
    show "os_makedirs fs (dir @ [cat]) = Inr (fs @ [(dir @ [cat], Dir)])"
      using False nex by (simp add: os_makedirs_child [OF assms(1)] os_path_exists_def)
    show "lookup (fs @ [(dir @ [cat], Dir)]) p
          = (if p = dir @ [cat] then Some Dir else lookup fs p)" for p
      using nex by (cases "lookup fs p") (auto simp: lookup_snoc)
    show "distinct (map fst (fs @ [(dir @ [cat], Dir)]))" if "distinct (map fst fs)"
      using that nex by (simp add: lookup_def map_of_eq_None_iff)
  qed
qed

text \<open>A move that meets no collision and is not refused.\<close>

lemma move_file_exact:
  assumes "lookup (disk st) (source_dir @ [n]) = Some (File c)"
    and "os_path_isdir (disk st) (source_dir @ [cat])"
    and "lookup (disk st) (source_dir @ [cat, n]) = None"
    and "\<not> move_fails pf (source_dir @ [n]) (source_dir @ [cat, n])"
  shows "lookup (disk (move_file pf source_dir n cat st)) p
           = (if p = source_dir @ [cat, n] then Some (File c)
              else if p = source_dir @ [n] then None
              else lookup (disk st) p)"
    and "moved_count (move_file pf source_dir n cat st) = moved_count st + 1"
    and "duplicate_count (move_file pf source_dir n cat st) = duplicate_count st"
    and "file_hashes (move_file pf source_dir n cat st) = file_hashes st"
    and "logfile (move_file pf source_dir n cat st) = logfile st @ [InfoMoved n cat]"
    and "distinct (map fst (disk st))
         \<Longrightarrow> distinct (map fst (disk (move_file pf source_dir n cat st)))"
proof -
  have dest: "choose_dest (disk st) (source_dir @ [cat]) n = source_dir @ [cat, n]"
    using assms(3) by (simp add: choose_dest_free os_path_exists_def)
  have nex: "\<not> os_path_exists (disk st) (source_dir @ [cat, n])"
    using assms(3) by (simp add: os_path_exists_def)
  have parent: "os_path_isdir (disk st) (butlast (source_dir @ [cat, n]))"
    using assms(2) by (simp add: butlast_append)
  have mv: "shutil_move pf (disk st) (source_dir @ [n]) (source_dir @ [cat, n])
            = Inr (filter (\<lambda>(q, e). q \<noteq> source_dir @ [n] \<and> q \<noteq> source_dir @ [cat, n]) (disk st)
                   @ [(source_dir @ [cat, n], File c)])"
    using assms(1,4) parent by (simp add: shutil_move_fresh [OF nex])
  have res: "move_file pf source_dir n cat st
             = st\<lparr>disk := filter (\<lambda>(q, e). q \<noteq> source_dir @ [n] \<and> q \<noteq> source_dir @ [cat, n])
                             (disk st) @ [(source_dir @ [cat, n], File c)],
                   logfile := logfile st @ [InfoMoved n cat],
                   moved_count := moved_count st + 1\<rparr>"
    by (simp add: move_file_def Let_def dest mv)
  show "lookup (disk (move_file pf source_dir n cat st)) p
           = (if p = source_dir @ [cat, n] then Some (File c)
              else if p = source_dir @ [n] then None
              else lookup (disk st) p)"
    by (simp add: res lookup_moved [OF assms(3)])
  show "moved_count (move_file pf source_dir n cat st) = moved_count st + 1"
    and "duplicate_count (move_file pf source_dir n cat st) = duplicate_count st"
    and "file_hashes (move_file pf source_dir n cat st) = file_hashes st"
    and "logfile (move_file pf source_dir n cat st) = logfile st @ [InfoMoved n cat]"
    by (simp_all add: res)
  show "distinct (map fst (disk (move_file pf source_dir n cat st)))"
    if "distinct (map fst (disk st))"
  proof -
    let ?kept = "filter (\<lambda>(q, e). q \<noteq> source_dir @ [n] \<and> q \<noteq> source_dir @ [cat, n]) (disk st)"
    from that have "distinct (map fst ?kept)" by (rule distinct_map_filter)
    moreover have "source_dir @ [cat, n] \<notin> fst ` set ?kept" by auto
    ultimately show ?thesis by (simp add: res)
  qed
qed

text \<open>One pass of the loop body for a file that meets no collision, without the duplicate check.\<close>

lemma relocate_step:
  assumes dir: "os_path_isdir (disk st) source_dir"
    and isreg: "lookup (disk st) (source_dir @ [n]) = Some (File c)"
    and name: "n \<noteq> category_of n"
    and folder: "\<not> os_path_isfile (disk st) (source_dir @ [category_of n])"
    and free: "lookup (disk st) (source_dir @ [category_of n, n]) = None"
    and ok: "\<not> move_fails pf (source_dir @ [n]) (source_dir @ [category_of n, n])"
  obtains st1 where "organize_entry pf source_dir False n st = (None, st1)"
    and "\<And>p. lookup (disk st1) p
              = (if p = source_dir @ [category_of n, n] then Some (File c)
                 else if p = source_dir @ [n] then None
                 else if p = source_dir @ [category_of n] then Some Dir
                 else lookup (disk st) p)"
    and "moved_count st1 = moved_count st + 1"
    and "duplicate_count st1 = duplicate_count st"
    and "distinct (map fst (disk st)) \<Longrightarrow> distinct (map fst (disk st1))"
proof -
  let ?cat = "category_of n"
  from makedirs_category [OF dir folder] obtain fs1
    where mk: "os_makedirs (disk st) (source_dir @ [?cat]) = Inr fs1"
      and l1: "\<And>p. lookup fs1 p = (if p = source_dir @ [?cat] then Some Dir else lookup (disk st) p)"
      and w1: "distinct (map fst (disk st)) \<Longrightarrow> distinct (map fst fs1)"
    by blast
  let ?st0 = "st\<lparr>disk := fs1\<rparr>"
  have a1: "lookup (disk ?st0) (source_dir @ [n]) = Some (File c)"
    using isreg name by (simp add: l1)
  have a2: "os_path_isdir (disk ?st0) (source_dir @ [?cat])"
    by (simp add: os_path_isdir_def l1)
  have a3: "lookup (disk ?st0) (source_dir @ [?cat, n]) = None"
    using free by (simp add: l1)
  note mv = move_file_exact [of ?st0 source_dir n c ?cat pf, OF a1 a2 a3 ok]
  have isfile: "os_path_isfile (disk st) (source_dir @ [n])"
    using isreg by (simp add: os_path_isfile_def)
  show thesis
  proof (rule that [of "move_file pf source_dir n ?cat ?st0"])
    show "organize_entry pf source_dir False n st = (None, move_file pf source_dir n ?cat ?st0)"
      using isfile mk by (simp add: organize_entry_def)
    show "lookup (disk (move_file pf source_dir n ?cat ?st0)) p
              = (if p = source_dir @ [?cat, n] then Some (File c)
                 else if p = source_dir @ [n] then None
                 else if p = source_dir @ [?cat] then Some Dir
                 else lookup (disk st) p)" for p
      by (simp add: mv(1) l1)
    show "moved_count (move_file pf source_dir n ?cat ?st0) = moved_count st + 1"
      by (simp add: mv(2))
    show "duplicate_count (move_file pf source_dir n ?cat ?st0) = duplicate_count st"
      by (simp add: mv(3))
    show "distinct (map fst (disk (move_file pf source_dir n ?cat ?st0)))"
      if "distinct (map fst (disk st))"
      using mv(6) w1 [OF that] by simp
  qed
qed

lemma relocate_loop:
  assumes "os_path_isdir (disk st) source_dir"
    and "distinct names"
    and "\<forall>n\<in>set names. \<exists>c. lookup (disk st) (source_dir @ [n]) = Some (File c)"
    and "\<forall>n\<in>set names. n \<notin> set (map fst FILE_CATEGORIES)"
    and "\<forall>n\<in>set names. lookup (disk st) (source_dir @ [category_of n, n]) = None"
    and "\<forall>cat\<in>set (map fst FILE_CATEGORIES). \<not> os_path_isfile (disk st) (source_dir @ [cat])"
    and "\<forall>a b. \<not> move_fails pf a b"
  shows "\<exists>st'. organize_loop pf source_dir False names st = (None, st')
           \<and> moved_count st' = moved_count st + length names
           \<and> duplicate_count st' = duplicate_count st
           \<and> (\<forall>n\<in>set names.
                 lookup (disk st') (source_dir @ [category_of n, n])
                   = lookup (disk st) (source_dir @ [n])
                 \<and> lookup (disk st') (source_dir @ [n]) = None
                 \<and> lookup (disk st') (source_dir @ [category_of n]) = Some Dir)
           \<and> (\<forall>p. (\<forall>n\<in>set names. p \<noteq> source_dir @ [n]
                                    \<and> p \<noteq> source_dir @ [category_of n, n]
                                    \<and> p \<noteq> source_dir @ [category_of n])
                  \<longrightarrow> lookup (disk st') p = lookup (disk st) p)
           \<and> (distinct (map fst (disk st)) \<longrightarrow> distinct (map fst (disk st')))"
  using assms
proof (induction names arbitrary: st)
  case Nil
  show ?case by simp
next
  case (Cons n names)
  let ?cats = "set (map fst FILE_CATEGORIES)"
  from Cons.prems(3) obtain c where c: "lookup (disk st) (source_dir @ [n]) = Some (File c)"
    by auto
  have known: "category_of m \<in> ?cats" for m
    by (rule category_of_known)
  from Cons.prems(4) have nocat: "n \<notin> ?cats" and nocats: "\<forall>m\<in>set names. m \<notin> ?cats"
    by simp_all
  from nocat known [of n] have name: "n \<noteq> category_of n" by metis
  from Cons.prems(6) known [of n]
  have folder: "\<not> os_path_isfile (disk st) (source_dir @ [category_of n])" by blast
  from Cons.prems(5) have free: "lookup (disk st) (source_dir @ [category_of n, n]) = None"
    by simp
  from Cons.prems(7) have ok: "\<not> move_fails pf (source_dir @ [n]) (source_dir @ [category_of n, n])"
    by simp
  from relocate_step [OF Cons.prems(1) c name folder free ok] obtain st1
    where run: "organize_entry pf source_dir False n st = (None, st1)"
      and l1: "\<And>p. lookup (disk st1) p
              = (if p = source_dir @ [category_of n, n] then Some (File c)
                 else if p = source_dir @ [n] then None
                 else if p = source_dir @ [category_of n] then Some Dir
                 else lookup (disk st) p)"
      and m1: "moved_count st1 = moved_count st + 1"
      and d1: "duplicate_count st1 = duplicate_count st"
      and w1: "distinct (map fst (disk st)) \<Longrightarrow> distinct (map fst (disk st1))"
    by blast
  from Cons.prems(2) have fresh: "n \<notin> set names" and dist: "distinct names" by simp_all
  have differ: "m \<noteq> n" "m \<noteq> category_of n" "n \<noteq> category_of m" if "m \<in> set names" for m
    using that fresh nocats nocat known [of n] known [of m] by metis+
  have p1: "os_path_isdir (disk st1) source_dir"
    using Cons.prems(1) by (simp add: os_path_isdir_def l1)
  have p3: "\<forall>m\<in>set names. \<exists>c. lookup (disk st1) (source_dir @ [m]) = Some (File c)"
    using Cons.prems(3) differ by (simp add: l1)
  have p5: "\<forall>m\<in>set names. lookup (disk st1) (source_dir @ [category_of m, m]) = None"
    using Cons.prems(5) differ by (simp add: l1)
  have p6: "\<forall>cat\<in>?cats. \<not> os_path_isfile (disk st1) (source_dir @ [cat])"
  proof
    fix cat assume cat: "cat \<in> ?cats"
    with nocat have "cat \<noteq> n" by metis
    moreover from Cons.prems(6) cat have "\<not> os_path_isfile (disk st) (source_dir @ [cat])"
      by blast
    ultimately show "\<not> os_path_isfile (disk st1) (source_dir @ [cat])"
      by (simp add: os_path_isfile_def l1)
  qed
  from Cons.IH [OF p1 dist p3 nocats p5 p6 Cons.prems(7)] obtain st'
    where rest: "organize_loop pf source_dir False names st1 = (None, st')"
      and m': "moved_count st' = moved_count st1 + length names"
      and d': "duplicate_count st' = duplicate_count st1"
      and moved: "\<And>m. m \<in> set names \<Longrightarrow>
                 lookup (disk st') (source_dir @ [category_of m, m])
                   = lookup (disk st1) (source_dir @ [m])
                 \<and> lookup (disk st') (source_dir @ [m]) = None
                 \<and> lookup (disk st') (source_dir @ [category_of m]) = Some Dir"
      and frame: "\<And>p. (\<forall>m\<in>set names. p \<noteq> source_dir @ [m]
                                    \<and> p \<noteq> source_dir @ [category_of m, m]
                                    \<and> p \<noteq> source_dir @ [category_of m])
                  \<Longrightarrow> lookup (disk st') p = lookup (disk st1) p"
      and w': "distinct (map fst (disk st1)) \<Longrightarrow> distinct (map fst (disk st'))"
    by blast
  have loop: "organize_loop pf source_dir False (n # names) st = (None, st')"
    using run rest by simp
  have counts: "moved_count st' = moved_count st + length (n # names)"
    "duplicate_count st' = duplicate_count st"
    using m1 m' d1 d' by simp_all
  have head_dest: "lookup (disk st') (source_dir @ [category_of n, n]) = Some (File c)"
  proof -
    have "lookup (disk st') (source_dir @ [category_of n, n])
          = lookup (disk st1) (source_dir @ [category_of n, n])"
      by (rule frame) (use differ in auto)
    then show ?thesis by (simp add: l1)
  qed
  have head_src: "lookup (disk st') (source_dir @ [n]) = None"
  proof -
    have "lookup (disk st') (source_dir @ [n]) = lookup (disk st1) (source_dir @ [n])"
      by (rule frame) (use differ in auto)
    then show ?thesis by (simp add: l1)
  qed
  have head_dir: "lookup (disk st') (source_dir @ [category_of n]) = Some Dir"
  proof (cases "\<exists>m\<in>set names. category_of m = category_of n")
    case True
    then obtain m where "m \<in> set names" "category_of m = category_of n" by blast
    with moved [of m] show ?thesis by simp
  next
    case False
    have "lookup (disk st') (source_dir @ [category_of n])
          = lookup (disk st1) (source_dir @ [category_of n])"
      by (rule frame) (use differ False in auto)
    then show ?thesis using name by (simp add: l1)
  qed
  have tail: "lookup (disk st') (source_dir @ [category_of m, m])
                   = lookup (disk st) (source_dir @ [m])
                 \<and> lookup (disk st') (source_dir @ [m]) = None
                 \<and> lookup (disk st') (source_dir @ [category_of m]) = Some Dir"
    if "m \<in> set names" for m
    using moved [OF that] differ [OF that] by (simp add: l1)
  have all: "\<forall>m\<in>set (n # names).
                 lookup (disk st') (source_dir @ [category_of m, m])
                   = lookup (disk st) (source_dir @ [m])
                 \<and> lookup (disk st') (source_dir @ [m]) = None
                 \<and> lookup (disk st') (source_dir @ [category_of m]) = Some Dir"
    using head_dest head_src head_dir c tail by simp
  have outside: "\<forall>p. (\<forall>m\<in>set (n # names). p \<noteq> source_dir @ [m]
                                    \<and> p \<noteq> source_dir @ [category_of m, m]
                                    \<and> p \<noteq> source_dir @ [category_of m])
                  \<longrightarrow> lookup (disk st') p = lookup (disk st) p"
  proof (intro allI impI)
    fix p
    assume a: "\<forall>m\<in>set (n # names). p \<noteq> source_dir @ [m]
                                    \<and> p \<noteq> source_dir @ [category_of m, m]
                                    \<and> p \<noteq> source_dir @ [category_of m]"
    then have "lookup (disk st') p = lookup (disk st1) p"
      by (intro frame) simp
    with a show "lookup (disk st') p = lookup (disk st) p"
      by (simp add: l1)
  qed
  have wf: "distinct (map fst (disk st)) \<longrightarrow> distinct (map fst (disk st'))"
    using w1 w' by blast
  from loop counts all outside wf show ?case by blast
qed

text \<open>The listing of a directory on a disk with one entry per path.\<close>

lemma children_member:
  assumes "n \<in> set (children fs dir)"
  shows "\<exists>e. (dir @ [n], e) \<in> set fs"
proof -
  from assms obtain q e where mem: "(q, e) \<in> set fs"
    and q: "q \<noteq> []" "butlast q = dir" "last q = n"
    by (auto simp: children_def)
  from q have "q = dir @ [n]"
    using append_butlast_last_id [of q] by simp
  with mem have "(dir @ [n], e) \<in> set fs" by simp
  then show ?thesis ..
qed

lemma children_distinct:
  assumes "distinct (map fst fs)"
  shows "distinct (children fs dir)"
proof -
  let ?P = "\<lambda>(q :: path, e :: entry). q \<noteq> [] \<and> butlast q = dir"
  from assms have d: "distinct fs" and inj: "inj_on fst (set fs)"
    by (simp_all add: distinct_map)
  have "inj_on (\<lambda>(q, e). last q) (set (filter ?P fs))"
  proof (rule inj_onI)
    fix x y
    assume x: "x \<in> set (filter ?P fs)" and y: "y \<in> set (filter ?P fs)"
      and eq: "(\<lambda>(q, e). last q) x = (\<lambda>(q, e). last q) y"
    obtain q e where xq: "x = (q, e)" by (cases x)
    obtain q' e' where yq: "y = (q', e')" by (cases y)
    from x xq have "q \<noteq> []" "butlast q = dir" by simp_all
    then have "q = dir @ [last q]" using append_butlast_last_id [of q] by simp
    moreover from y yq have "q' \<noteq> []" "butlast q' = dir" by simp_all
    then have "q' = dir @ [last q']" using append_butlast_last_id [of q'] by simp
    moreover from eq xq yq have "last q = last q'" by simp
    ultimately have "fst x = fst y" using xq yq by simp
    moreover from x y have "x \<in> set fs" "y \<in> set fs" by simp_all
    ultimately show "x = y" using inj by (auto dest: inj_onD)
  qed
  with d show ?thesis
    by (simp add: children_def distinct_map)
qed

lemma lookup_entry:
  assumes "distinct (map fst fs)" and "(q, e) \<in> set fs" and "q \<noteq> []"
  shows "lookup fs q = Some e"
  using assms by (simp add: lookup_def)

lemma lookup_SomeD:
  assumes "lookup fs q = Some (File c)"
  shows "(q, File c) \<in> set fs"
proof -
  from assms have "q \<noteq> []" by (auto simp: lookup_def split: if_splits)
  with assms show ?thesis by (simp add: lookup_def map_of_SomeD)
qed









section \<open>The setup error and the declined confirmation\<close>

text \<open>
  C5. If the source directory does not exist, \<^verbatim>\<open>organize_files\<close> logs the error, raises
  nothing, returns the counts (0, 0) and leaves the disk as it was.
\<close>

theorem organize_files_missing_directory:
  assumes "\<not> os_path_exists fs source_dir"
  shows "organize_files pf fs source_dir delete_duplicates
         = (fs, [ErrorNoDirectory source_dir], Returned (0, 0))"
  using assms by (simp add: organize_files_def)

theorem organize_files_missing_directory_witness:
  "\<not> os_path_exists downloads_disk [''gone'']
   \<and> organize_files linux_host downloads_disk [''gone''] True
       = (downloads_disk, [ErrorNoDirectory [''gone'']], Returned (0, 0))"
proof -
  have h: "\<not> os_path_exists downloads_disk [''gone'']"
    by (simp add: os_path_exists_def lookup_def downloads_disk_def)
  from organize_files_missing_directory [OF h] h show ?thesis by blast
qed

text \<open>
  C6. If the answer to the confirmation prompt is not \<^verbatim>\<open>y\<close> (in either case),
  \<^verbatim>\<open>clean_temp_files\<close> returns (0, 0) before anything is deleted: the disk it leaves is
  the disk it found, and nothing is logged.
\<close>

theorem clean_temp_files_declined:
  assumes "str_lower answer \<noteq> ''y''"
  shows "clean_temp_files pf answer fs = (fs, [], 0, 0)"
  using assms by (simp add: clean_temp_files_def)

theorem clean_temp_files_declined_witness:
  "str_lower ''n'' \<noteq> ''y''
   \<and> clean_temp_files linux_host ''n'' temp_disk = (temp_disk, [], 0, 0)"
proof -
  have h: "str_lower ''n'' \<noteq> ''y''"
    by (simp add: str_lower_def lower_char_def)
  from clean_temp_files_declined [OF h] h show ?thesis by blast
qed

section \<open>Collision-safe naming\<close>

text \<open>
  C3. When \<^verbatim>\<open><category_dir>/<filename>\<close> exists, the destination chosen is
  \<^verbatim>\<open><base>_<k><ext>\<close> for the first \<open>k \<ge> 1\<close> whose path does not exist, where
  \<^verbatim>\<open>base\<close> and \<^verbatim>\<open>ext\<close> split the file name at its extension: \<^verbatim>\<open>_1\<close> when that is
  free, \<^verbatim>\<open>_2\<close> when \<^verbatim>\<open>_1\<close> is taken and \<^verbatim>\<open>_2\<close> is free. The move overwrites nothing:
  every entry that existed before it, the moved file apart, is still what it was, and a
  move that the platform carries out puts the file at the chosen path.
\<close>

theorem collision_safe_destination:
  assumes collide: "os_path_exists (disk st) (source_dir @ [category, filename])"
    and sp: "os_path_splitext filename = (base, ext)"
  shows "(\<exists>k\<ge>1.
            choose_dest (disk st) (source_dir @ [category]) filename
              = source_dir @ [category, base @ ''_'' @ str k @ ext]
          \<and> \<not> os_path_exists (disk st) (source_dir @ [category, base @ ''_'' @ str k @ ext])
          \<and> (\<forall>j. 1 \<le> j \<and> j < k
                \<longrightarrow> os_path_exists (disk st) (source_dir @ [category, base @ ''_'' @ str j @ ext])))
       \<and> base @ ext = filename
       \<and> (\<not> os_path_exists (disk st) (source_dir @ [category, base @ ''_'' @ str 1 @ ext])
            \<longrightarrow> choose_dest (disk st) (source_dir @ [category]) filename
                = source_dir @ [category, base @ ''_'' @ str 1 @ ext])
       \<and> (os_path_exists (disk st) (source_dir @ [category, base @ ''_'' @ str 1 @ ext])
          \<and> \<not> os_path_exists (disk st) (source_dir @ [category, base @ ''_'' @ str 2 @ ext])
            \<longrightarrow> choose_dest (disk st) (source_dir @ [category]) filename
                = source_dir @ [category, base @ ''_'' @ str 2 @ ext])
       \<and> (\<forall>p. p \<noteq> source_dir @ [filename] \<and> os_path_exists (disk st) p
            \<longrightarrow> lookup (disk (move_file pf source_dir filename category st)) p
                = lookup (disk st) p)
       \<and> (\<forall>c. lookup (disk st) (source_dir @ [filename]) = Some (File c)
              \<and> os_path_isdir (disk st) (source_dir @ [category])
              \<and> \<not> move_fails pf (source_dir @ [filename])
                    (choose_dest (disk st) (source_dir @ [category]) filename)
            \<longrightarrow> lookup (disk (move_file pf source_dir filename category st))
                  (choose_dest (disk st) (source_dir @ [category]) filename) = Some (File c)
                \<and> lookup (disk (move_file pf source_dir filename category st))
                    (source_dir @ [filename]) = None)"
proof -
  let ?fs = "disk st"
  let ?cand = "\<lambda>k. source_dir @ [category, base @ ''_'' @ str k @ ext]"
  let ?dest = "choose_dest ?fs (source_dir @ [category]) filename"
  from collide have collide': "os_path_exists ?fs ((source_dir @ [category]) @ [filename])"
    by simp
  from choose_dest_collision [OF collide' sp]
  have ex: "\<exists>k\<ge>1. ?dest = ?cand k \<and> \<not> os_path_exists ?fs (?cand k)
              \<and> (\<forall>j. 1 \<le> j \<and> j < k \<longrightarrow> os_path_exists ?fs (?cand j))"
    by simp
  then obtain k where k: "1 \<le> k" and dest: "?dest = ?cand k"
    and free: "\<not> os_path_exists ?fs (?cand k)"
    and taken: "\<And>j. 1 \<le> j \<Longrightarrow> j < k \<Longrightarrow> os_path_exists ?fs (?cand j)"
    by blast
  have first: "\<not> os_path_exists ?fs (?cand 1) \<longrightarrow> ?dest = ?cand 1"
  proof
    assume "\<not> os_path_exists ?fs (?cand 1)"
    with taken [of 1] have "\<not> 1 < k" by blast
    with k have "k = 1" by simp
    with dest show "?dest = ?cand 1" by (simp only:)
  qed
  have second: "os_path_exists ?fs (?cand 1) \<and> \<not> os_path_exists ?fs (?cand 2)
                \<longrightarrow> ?dest = ?cand 2"
  proof
    assume a: "os_path_exists ?fs (?cand 1) \<and> \<not> os_path_exists ?fs (?cand 2)"
    with free have "k \<noteq> 1" by blast
    moreover from a taken [of 2] have "\<not> 2 < k" by fastforce
    ultimately have "k = 2" using k by simp
    with dest show "?dest = ?cand 2" by (simp only:)
  qed
  have frame: "\<forall>p. p \<noteq> source_dir @ [filename] \<and> os_path_exists ?fs p
                 \<longrightarrow> lookup (disk (move_file pf source_dir filename category st)) p
                     = lookup ?fs p"
    by (simp add: move_file_frame)
  have lands: "\<forall>c. lookup ?fs (source_dir @ [filename]) = Some (File c)
                 \<and> os_path_isdir ?fs (source_dir @ [category])
                 \<and> \<not> move_fails pf (source_dir @ [filename]) ?dest
               \<longrightarrow> lookup (disk (move_file pf source_dir filename category st)) ?dest
                     = Some (File c)
                   \<and> lookup (disk (move_file pf source_dir filename category st))
                       (source_dir @ [filename]) = None"
  proof (intro allI impI)
    fix c
    assume "lookup ?fs (source_dir @ [filename]) = Some (File c)
            \<and> os_path_isdir ?fs (source_dir @ [category])
            \<and> \<not> move_fails pf (source_dir @ [filename]) ?dest"
    then have "lookup ?fs (source_dir @ [filename]) = Some (File c)"
      and "os_path_isdir ?fs (source_dir @ [category])"
      and "\<not> move_fails pf (source_dir @ [filename]) ?dest"
      by blast+
    from move_file_lands [OF this]
    show "lookup (disk (move_file pf source_dir filename category st)) ?dest = Some (File c)
          \<and> lookup (disk (move_file pf source_dir filename category st))
              (source_dir @ [filename]) = None"
      by blast
  qed
  have name: "base @ ext = filename"
    using sp by (rule splitext_append)
  from ex name first second frame lands show ?thesis
    by (intro conjI) assumption+
qed

theorem collision_safe_destination_witness:
  "os_path_exists (disk (initial_org_state collision_disk)) ([''d''] @ [''Images'', ''a.jpg''])
   \<and> os_path_splitext ''a.jpg'' = (''a'', ''.jpg'')
   \<and> choose_dest (disk (initial_org_state collision_disk)) ([''d''] @ [''Images'']) ''a.jpg''
       = [''d'', ''Images'', ''a_2.jpg'']
   \<and> lookup (disk (move_file linux_host [''d''] ''a.jpg'' ''Images''
                    (initial_org_state collision_disk))) [''d'', ''Images'', ''a.jpg'']
       = Some (File ''first'')
   \<and> lookup (disk (move_file linux_host [''d''] ''a.jpg'' ''Images''
                    (initial_org_state collision_disk))) [''d'', ''Images'', ''a_2.jpg'']
       = Some (File ''third'')"
proof -
  let ?st = "initial_org_state collision_disk"
  have h1: "os_path_exists (disk ?st) ([''d''] @ [''Images'', ''a.jpg''])"
    by (simp add: initial_org_state_def collision_disk_def os_path_exists_def lookup_def)
  have h2: "os_path_splitext ''a.jpg'' = (''a'', ''.jpg'')"
    by (simp add: os_path_splitext_def)
  have s1: "str 1 = ''1''" and s1': "str (Suc 0) = ''1''" and s2: "str 2 = ''2''"
    by code_simp+
  have e1: "os_path_exists (disk ?st) ([''d''] @ [''Images'', ''a'' @ ''_'' @ str 1 @ ''.jpg''])"
    by (simp add: s1 s1' initial_org_state_def collision_disk_def os_path_exists_def lookup_def)
  have e2: "\<not> os_path_exists (disk ?st) ([''d''] @ [''Images'', ''a'' @ ''_'' @ str 2 @ ''.jpg''])"
    by (simp add: s2 initial_org_state_def collision_disk_def os_path_exists_def lookup_def)
  have src: "lookup (disk ?st) ([''d''] @ [''a.jpg'']) = Some (File ''third'')"
    by (simp add: initial_org_state_def collision_disk_def lookup_def)
  have cat: "os_path_isdir (disk ?st) ([''d''] @ [''Images''])"
    by (simp add: initial_org_state_def collision_disk_def os_path_isdir_def lookup_def)
  have ok: "\<And>q. \<not> move_fails linux_host ([''d''] @ [''a.jpg'']) q"
    by (simp add: linux_host_def)
  have old: "lookup (disk ?st) [''d'', ''Images'', ''a.jpg''] = Some (File ''first'')"
    by (simp add: initial_org_state_def collision_disk_def lookup_def)
  note inst = collision_safe_destination [OF h1 h2, of linux_host]
  from inst e1 e2 have dest: "choose_dest (disk ?st) ([''d''] @ [''Images'']) ''a.jpg''
      = [''d''] @ [''Images'', ''a'' @ ''_'' @ str 2 @ ''.jpg'']"
    by blast
  from inst h1 have "lookup (disk (move_file linux_host [''d''] ''a.jpg'' ''Images'' ?st))
      ([''d''] @ [''Images'', ''a.jpg'']) = lookup (disk ?st) ([''d''] @ [''Images'', ''a.jpg''])"
    by simp
  with old have kept: "lookup (disk (move_file linux_host [''d''] ''a.jpg'' ''Images'' ?st))
      [''d'', ''Images'', ''a.jpg''] = Some (File ''first'')"
    by simp
  from inst src cat ok have "lookup (disk (move_file linux_host [''d''] ''a.jpg'' ''Images'' ?st))
      (choose_dest (disk ?st) ([''d''] @ [''Images'']) ''a.jpg'') = Some (File ''third'')"
    by blast
  with dest have landed: "lookup (disk (move_file linux_host [''d''] ''a.jpg'' ''Images'' ?st))
      [''d'', ''Images'', ''a_2.jpg''] = Some (File ''third'')"
    by (simp add: s2)
  from dest have dest': "choose_dest (disk ?st) ([''d''] @ [''Images'']) ''a.jpg''
      = [''d'', ''Images'', ''a_2.jpg'']"
    by (simp only: s2 append.simps)
  from h1 h2 dest' kept landed show ?thesis
    by blast
qed

section \<open>Exceptions that leave the Classifier/Mover\<close>

text \<open>
  C4. In the Temp Purger every call on the disk that can raise stands inside a
  \<^verbatim>\<open>try\<close>. In the Classifier/Mover that is not so: \<^verbatim>\<open>os.makedirs\<close> (line 72) and \<^verbatim>\<open>os.remove\<close> (line 79)
  stand outside every \<^verbatim>\<open>try\<close>. A regular file named like a category folder makes
  \<^verbatim>\<open>os.makedirs\<close> raise \<^verbatim>\<open>FileExistsError\<close>, and a duplicate that cannot be unlinked
  makes \<^verbatim>\<open>os.remove\<close> raise \<^verbatim>\<open>PermissionError\<close>; either exception leaves
  \<^verbatim>\<open>organize_files\<close>, and the entries that follow in the listing are not processed.
\<close>

theorem organize_files_raises:
  "organize_files linux_host named_like_category_disk [''d''] False
     = (named_like_category_disk, [], Raised FileExistsError)
   \<and> organize_files locked_host duplicates_disk [''d''] True
     = ([([''d''], Dir),
         ([''d'', ''copy.txt''], File ''same''),
         ([''d'', ''later.txt''], File ''other''),
         ([''d'', ''Documents''], Dir),
         ([''d'', ''Documents'', ''a.txt''], File ''same'')],
        [InfoMoved ''a.txt'' ''Documents'', WarningDuplicate ''copy.txt''],
        Raised PermissionError)"
  by code_simp

section \<open>What the Temp Purger logs for a directory it could not remove\<close>

text \<open>
  C7. \<^verbatim>\<open>shutil.rmtree(dir_path, ignore_errors=True)\<close> never raises, so the \<^verbatim>\<open>except\<close>
  branch of lines 139 to 140 is dead: when \<^verbatim>\<open>/tmp/s/b\<close> cannot be unlinked, the failure
  for the file is logged, but the directory \<^verbatim>\<open>/tmp/s\<close>, which stays on the disk, is
  logged as deleted and no failure is logged for it. The counts (one file, three bytes)
  are those of the file that was deleted.
\<close>

theorem clean_temp_files_logs_kept_directory_as_deleted:
  "clean_temp_files stuck_host ''y'' temp_disk
     = ([([''tmp''], Dir),
         ([''tmp'', ''s''], Dir),
         ([''tmp'', ''s'', ''b''], File ''12''),
         ([''home''], Dir)],
        [ErrorDelete [''tmp'', ''s'', ''b''] PermissionError,
         InfoDeleted [''tmp'', ''a''] 3,
         InfoDeletedDirectory [''tmp'', ''s'']],
        1, 3)"
  by code_simp

section \<open>A file whose hash cannot be computed\<close>

text \<open>
  C8. When the hash of a regular file cannot be computed (\<^verbatim>\<open>get_file_hash\<close> answers
  \<^verbatim>\<open>None\<close>), the failure is logged, the HashIndex and the duplicate counter stay as they
  were, and the entry is handed to the relocation step exactly as a file that is no
  duplicate: its content is still on the disk afterwards, and a move that the platform
  carries out puts it into its category folder and counts it as moved.
\<close>

theorem hash_failure_still_relocates:
  assumes isreg: "lookup (disk st) (source_dir @ [filename]) = Some (File c)"
    and mk: "os_makedirs (disk st) (source_dir @ [category_of filename]) = Inr fs1"
    and fail: "get_file_hash pf fs1 (source_dir @ [filename]) = (None, lg)"
  shows "\<exists>e. lg = [ErrorHashing (source_dir @ [filename]) e]
           \<and> organize_entry pf source_dir True filename st
               = (None, move_file pf source_dir filename (category_of filename)
                          (st\<lparr>disk := fs1, logfile := logfile st @ lg\<rparr>))
           \<and> ErrorHashing (source_dir @ [filename]) e
               \<in> set (logfile (snd (organize_entry pf source_dir True filename st)))
           \<and> file_hashes (snd (organize_entry pf source_dir True filename st)) = file_hashes st
           \<and> duplicate_count (snd (organize_entry pf source_dir True filename st))
               = duplicate_count st
           \<and> (lookup (disk (snd (organize_entry pf source_dir True filename st)))
                 (source_dir @ [filename]) = Some (File c)
              \<or> lookup (disk (snd (organize_entry pf source_dir True filename st)))
                   (choose_dest fs1 (source_dir @ [category_of filename]) filename)
                 = Some (File c))
           \<and> (\<not> move_fails pf (source_dir @ [filename])
                   (choose_dest fs1 (source_dir @ [category_of filename]) filename)
                \<longrightarrow> lookup (disk (snd (organize_entry pf source_dir True filename st)))
                      (choose_dest fs1 (source_dir @ [category_of filename]) filename)
                    = Some (File c)
                  \<and> lookup (disk (snd (organize_entry pf source_dir True filename st)))
                      (source_dir @ [filename]) = None
                  \<and> moved_count (snd (organize_entry pf source_dir True filename st))
                    = moved_count st + 1)"
proof -
  let ?src = "source_dir @ [filename]"
  let ?cat = "category_of filename"
  let ?st1 = "st\<lparr>disk := fs1, logfile := logfile st @ lg\<rparr>"
  let ?res = "move_file pf source_dir filename ?cat ?st1"
  from get_file_hash_None [OF fail] obtain e where lg: "lg = [ErrorHashing ?src e]"
    by blast
  from isreg have isfile: "os_path_isfile (disk st) ?src"
    by (simp add: os_path_isfile_def)
  have run: "organize_entry pf source_dir True filename st = (None, ?res)"
    using isfile mk fail
    by (simp add: organize_entry_def remove_duplicate_or_move_def Let_def truthy_def)
  have file1: "lookup (disk ?st1) ?src = Some (File c)"
    using os_makedirs_keeps [OF mk isreg] by simp
  have dir1: "os_path_isdir (disk ?st1) (source_dir @ [?cat])"
    using os_makedirs_isdir [OF mk] by simp
  have logged: "ErrorHashing ?src e \<in> set (logfile ?res)"
    using move_file_bookkeeping(3) [of pf source_dir filename ?cat ?st1] lg by auto
  have hashes: "file_hashes ?res = file_hashes st"
    by (simp add: move_file_bookkeeping)
  have dups: "duplicate_count ?res = duplicate_count st"
    by (simp add: move_file_bookkeeping)
  have kept: "lookup (disk ?res) ?src = Some (File c)
              \<or> lookup (disk ?res) (choose_dest fs1 (source_dir @ [?cat]) filename) = Some (File c)"
    using move_file_keeps_content [OF file1, of pf ?cat] by simp
  have moved: "\<not> move_fails pf ?src (choose_dest fs1 (source_dir @ [?cat]) filename)
               \<longrightarrow> lookup (disk ?res) (choose_dest fs1 (source_dir @ [?cat]) filename)
                     = Some (File c)
                   \<and> lookup (disk ?res) ?src = None
                   \<and> moved_count ?res = moved_count st + 1"
  proof
    assume "\<not> move_fails pf ?src (choose_dest fs1 (source_dir @ [?cat]) filename)"
    then have "\<not> move_fails pf ?src (choose_dest (disk ?st1) (source_dir @ [?cat]) filename)"
      by simp
    from move_file_lands [OF file1 dir1 this]
    show "lookup (disk ?res) (choose_dest fs1 (source_dir @ [?cat]) filename) = Some (File c)
          \<and> lookup (disk ?res) ?src = None
          \<and> moved_count ?res = moved_count st + 1"
      by simp
  qed
  from lg run logged hashes dups kept moved show ?thesis
    by (intro exI [of _ e]) (simp only: snd_conv simp_thms)
qed

theorem hash_failure_still_relocates_witness:
  "lookup (disk (initial_org_state twins_disk)) ([''d''] @ [''a.txt'']) = Some (File ''same'')
   \<and> os_makedirs (disk (initial_org_state twins_disk)) ([''d''] @ [category_of ''a.txt''])
       = Inr (twins_disk @ [([''d'', ''Documents''], Dir)])
   \<and> get_file_hash unreadable_host (twins_disk @ [([''d'', ''Documents''], Dir)])
        ([''d''] @ [''a.txt''])
       = (None, [ErrorHashing [''d'', ''a.txt''] PermissionError])
   \<and> file_hashes (snd (organize_entry unreadable_host [''d''] True ''a.txt''
                          (initial_org_state twins_disk))) = []
   \<and> lookup (disk (snd (organize_entry unreadable_host [''d''] True ''a.txt''
                           (initial_org_state twins_disk))))
        [''d'', ''Documents'', ''a.txt''] = Some (File ''same'')"
proof -
  let ?st = "initial_org_state twins_disk"
  let ?fs1 = "twins_disk @ [([''d'', ''Documents''], Dir)]"
  have h1: "lookup (disk ?st) ([''d''] @ [''a.txt'']) = Some (File ''same'')"
    by code_simp
  have h2: "os_makedirs (disk ?st) ([''d''] @ [category_of ''a.txt'']) = Inr ?fs1"
    by code_simp
  have h3: "get_file_hash unreadable_host ?fs1 ([''d''] @ [''a.txt''])
            = (None, [ErrorHashing [''d'', ''a.txt''] PermissionError])"
    by code_simp
  have dest: "choose_dest ?fs1 ([''d''] @ [category_of ''a.txt'']) ''a.txt''
              = [''d'', ''Documents'', ''a.txt'']"
    by code_simp
  have ok: "\<not> move_fails unreadable_host ([''d''] @ [''a.txt''])
              (choose_dest ?fs1 ([''d''] @ [category_of ''a.txt'']) ''a.txt'')"
    by (simp add: unreadable_host_def linux_host_def)
  have empty: "file_hashes ?st = []"
    by (simp add: initial_org_state_def)
  note inst = hash_failure_still_relocates [OF h1 h2 h3]
  from inst empty have a: "file_hashes (snd (organize_entry unreadable_host [''d''] True ''a.txt'' ?st)) = []"
    by auto
  from inst ok have "lookup (disk (snd (organize_entry unreadable_host [''d''] True ''a.txt'' ?st)))
      (choose_dest ?fs1 ([''d''] @ [category_of ''a.txt'']) ''a.txt'') = Some (File ''same'')"
    by blast
  then have b: "lookup (disk (snd (organize_entry unreadable_host [''d''] True ''a.txt'' ?st)))
      [''d'', ''Documents'', ''a.txt''] = Some (File ''same'')"
    by (simp only: dest)
  from h1 h2 h3 a b show ?thesis by blast
qed

section \<open>Running the Classifier/Mover a second time\<close>

text \<open>
  C9, as amended. When a run of \<^verbatim>\<open>organize_files\<close> has returned and its log holds no
  failed move, no regular file is left directly inside the source directory: every file
  of the listing was moved into a category folder or removed as a duplicate, and nothing
  the run creates is a regular file at the top level. A second run, on any platform and
  with either setting of the duplicate flag, therefore finds only directories in its
  listing, skips them, leaves the disk as it is and returns (0, 0). The two conditions
  are needed: \<open>second_run_moves_what_the_first_left\<close> below shows a second run that
  moves files after a first run with a failed move, and after a first run that an
  exception left.
\<close>

theorem second_run_moves_nothing:
  assumes first_run: "organize_files pf fs source_dir dd = (fs1, lg, Returned counts)"
    and all_moved: "\<forall>n e. ErrorMove n e \<notin> set lg"
  shows "organize_files pf2 fs1 source_dir dd2
           = (fs1, if os_path_exists fs source_dir then [] else [ErrorNoDirectory source_dir],
              Returned (0, 0))
         \<and> (os_path_exists fs source_dir
              \<longrightarrow> (\<forall>m. \<not> os_path_isfile fs1 (source_dir @ [m])))"
proof (cases "os_path_exists fs source_dir")
  case False
  with first_run have "fs1 = fs" by (simp add: organize_files_def)
  with False show ?thesis by (simp add: organize_files_def)
next
  case True
  from True first_run obtain names where ls: "os_listdir fs source_dir = Inr names"
    by (cases "os_listdir fs source_dir") (simp_all add: organize_files_def)
  then have names: "names = children fs source_dir" and dir: "os_path_isdir fs source_dir"
    by (auto simp: os_listdir_def os_path_isdir_def split: option.splits entry.splits)
  obtain x st where loop: "organize_loop pf source_dir dd names (initial_org_state fs) = (x, st)"
    by (cases "organize_loop pf source_dir dd names (initial_org_state fs)")
  with True ls first_run have x: "x = None" and st: "disk st = fs1" "logfile st = lg"
    by (auto simp: organize_files_def split: option.splits)
  from top_level_shrinks_organize_loop [of source_dir "initial_org_state fs" pf dd names] loop
  have shrinks: "top_level_shrinks source_dir (initial_org_state fs) st" by simp
  have start: "disk (initial_org_state fs) = fs" by (simp add: initial_org_state_def)
  from shrinks dir st start have dir1: "os_path_isdir fs1 source_dir"
    by (simp add: top_level_shrinks_def)
  have none: "\<not> os_path_isfile fs1 (source_dir @ [m])" for m
  proof
    assume a: "os_path_isfile fs1 (source_dir @ [m])"
    with shrinks st start have "os_path_isfile fs (source_dir @ [m])"
      by (simp add: top_level_shrinks_def)
    then have "m \<in> set names" unfolding names by (rule isfile_listed)
    with organize_loop_clears [of pf source_dir dd names "initial_org_state fs" st]
      loop x all_moved st a
    show False by simp
  qed
  have "organize_loop pf2 source_dir dd2 (children fs1 source_dir) (initial_org_state fs1)
        = (None, initial_org_state fs1)"
    by (rule organize_loop_skips) (simp add: initial_org_state_def none)
  with dir1 have "organize_files pf2 fs1 source_dir dd2 = (fs1, [], Returned (0, 0))"
    by (simp add: organize_files_def os_listdir_def os_path_isdir_def os_path_exists_def
          initial_org_state_def)
  with True none show ?thesis by simp
qed

theorem second_run_moves_nothing_witness:
  "organize_files linux_host downloads_disk [''d''] False
     = (organized_downloads_disk,
        [InfoMoved ''a.JPG'' ''Images'', InfoMoved ''notes.txt'' ''Documents'',
         InfoMoved ''README'' ''Others''],
        Returned (3, 0))
   \<and> organize_files linux_host organized_downloads_disk [''d''] True
       = (organized_downloads_disk, [], Returned (0, 0))"
proof -
  let ?lg = "[InfoMoved ''a.JPG'' ''Images'', InfoMoved ''notes.txt'' ''Documents'',
              InfoMoved ''README'' ''Others'']"
  have h1: "organize_files linux_host downloads_disk [''d''] False
            = (organized_downloads_disk, ?lg, Returned (3, 0))"
    by code_simp
  have h2: "\<forall>n e. ErrorMove n e \<notin> set ?lg"
    by simp
  have ex: "os_path_exists downloads_disk [''d'']"
    by code_simp
  from second_run_moves_nothing [OF h1 h2, of linux_host True] ex
  have "organize_files linux_host organized_downloads_disk [''d''] True
        = (organized_downloads_disk, [], Returned (0, 0))"
    by simp
  with h1 show ?thesis by blast
qed


text \<open>
  A file whose move raised stays at the top level (lines 95 to 101 log the error and go
  on), so the next run moves it: after a first run that moved nothing and returned
  (0, 0), a second run on a host that no longer refuses the move returns (1, 0). And
  after a first run that \<^verbatim>\<open>os.remove\<close> left with an exception, a second run on the same
  host moves the two files the first one never reached and returns (2, 0).
\<close>

theorem second_run_moves_what_the_first_left:
  "organize_files refusing_host single_picture_disk [''d''] False
     = ([([''d''], Dir), ([''d'', ''a.jpg''], File ''pic''), ([''d'', ''Images''], Dir)],
        [ErrorMove ''a.jpg'' PermissionError],
        Returned (0, 0))
   \<and> organize_files linux_host
       [([''d''], Dir), ([''d'', ''a.jpg''], File ''pic''), ([''d'', ''Images''], Dir)]
       [''d''] False
     = ([([''d''], Dir), ([''d'', ''Images''], Dir), ([''d'', ''Images'', ''a.jpg''], File ''pic'')],
        [InfoMoved ''a.jpg'' ''Images''],
        Returned (1, 0))
   \<and> organize_files locked_host duplicates_disk [''d''] True
     = ([([''d''], Dir),
         ([''d'', ''copy.txt''], File ''same''),
         ([''d'', ''later.txt''], File ''other''),
         ([''d'', ''Documents''], Dir),
         ([''d'', ''Documents'', ''a.txt''], File ''same'')],
        [InfoMoved ''a.txt'' ''Documents'', WarningDuplicate ''copy.txt''],
        Raised PermissionError)
   \<and> organize_files locked_host
       [([''d''], Dir),
        ([''d'', ''copy.txt''], File ''same''),
        ([''d'', ''later.txt''], File ''other''),
        ([''d'', ''Documents''], Dir),
        ([''d'', ''Documents'', ''a.txt''], File ''same'')]
       [''d''] True
     = ([([''d''], Dir),
         ([''d'', ''Documents''], Dir),
         ([''d'', ''Documents'', ''a.txt''], File ''same''),
         ([''d'', ''Documents'', ''copy.txt''], File ''same''),
         ([''d'', ''Documents'', ''later.txt''], File ''other'')],
        [InfoMoved ''copy.txt'' ''Documents'', InfoMoved ''later.txt'' ''Documents''],
        Returned (2, 0))"
  by code_simp

section \<open>What the Temp Purger removes\<close>

text \<open>
  C10, as amended. After a confirmed purge an entry of the disk is either what it was or
  gone, and whatever is gone lay strictly inside a configured location. A configured
  location that was a directory and does not lie strictly inside another configured
  location is therefore still a directory. The restriction is needed: a location inside
  another one is removed with it, as \<open>nested_location_is_removed\<close> below shows for a
  home directory under \<^verbatim>\<open>/tmp\<close>.
\<close>

theorem purge_keeps_outermost_locations:
  assumes "str_lower answer = ''y''"
  shows "(\<forall>p. lookup (fst (clean_temp_files pf answer fs)) p = lookup fs p
             \<or> (lookup (fst (clean_temp_files pf answer fs)) p = None
                \<and> (\<exists>t\<in>set (temp_dirs_of pf). strict_prefix t p)))
         \<and> (\<forall>t\<in>set (temp_dirs_of pf).
               os_path_isdir fs t \<and> (\<forall>t'\<in>set (temp_dirs_of pf). \<not> strict_prefix t' t)
               \<longrightarrow> os_path_isdir (fst (clean_temp_files pf answer fs)) t)"
proof -
  let ?fs1 = "fst (clean_temp_files pf answer fs)"
  have "?fs1 = disk (fold (purge_location pf) (temp_dirs_of pf) (initial_purge_state fs))"
    using assms by (simp add: clean_temp_files_def Let_def)
  with removed_only_below_locations [of "temp_dirs_of pf" "initial_purge_state fs" pf]
  have rob: "removed_only_below (set (temp_dirs_of pf)) fs ?fs1"
    by (simp add: initial_purge_state_def)
  then have a: "\<forall>p. lookup ?fs1 p = lookup fs p
             \<or> (lookup ?fs1 p = None \<and> (\<exists>t\<in>set (temp_dirs_of pf). strict_prefix t p))"
    by (simp add: removed_only_below_def)
  have b: "\<forall>t\<in>set (temp_dirs_of pf).
               os_path_isdir fs t \<and> (\<forall>t'\<in>set (temp_dirs_of pf). \<not> strict_prefix t' t)
               \<longrightarrow> os_path_isdir ?fs1 t"
  proof (intro ballI impI)
    fix t
    assume "t \<in> set (temp_dirs_of pf)"
      and h: "os_path_isdir fs t \<and> (\<forall>t'\<in>set (temp_dirs_of pf). \<not> strict_prefix t' t)"
    from a have "lookup ?fs1 t = lookup fs t
        \<or> (lookup ?fs1 t = None \<and> (\<exists>t'\<in>set (temp_dirs_of pf). strict_prefix t' t))"
      by blast
    with h show "os_path_isdir ?fs1 t"
      by (auto simp: os_path_isdir_def)
  qed
  from a b show ?thesis by (rule conjI)
qed

theorem purge_keeps_outermost_locations_witness:
  "str_lower ''y'' = ''y''
   \<and> [''tmp''] \<in> set (temp_dirs_of linux_host)
   \<and> os_path_isdir temp_disk [''tmp'']
   \<and> os_path_isdir (fst (clean_temp_files linux_host ''y'' temp_disk)) [''tmp'']
   \<and> lookup (fst (clean_temp_files linux_host ''y'' temp_disk)) [''home''] = Some Dir"
proof -
  have h: "str_lower ''y'' = ''y''"
    by code_simp
  have dirs: "temp_dirs_of linux_host = [[''tmp''], [''home'', ''u'', ''.cache'']]"
    by code_simp
  have mem: "[''tmp''] \<in> set (temp_dirs_of linux_host)"
    by (simp add: dirs)
  have isdir: "os_path_isdir temp_disk [''tmp'']"
    by code_simp
  have outer: "\<forall>t'\<in>set (temp_dirs_of linux_host). \<not> strict_prefix t' [''tmp'']"
    by (simp add: dirs)
  have home: "lookup temp_disk [''home''] = Some Dir"
    by code_simp
  have nothome: "\<not> (\<exists>t\<in>set (temp_dirs_of linux_host). strict_prefix t [''home''])"
    by (simp add: dirs)
  note inst = purge_keeps_outermost_locations [OF h, of linux_host temp_disk]
  from inst mem isdir outer
  have a: "os_path_isdir (fst (clean_temp_files linux_host ''y'' temp_disk)) [''tmp'']"
    by blast
  from inst have "lookup (fst (clean_temp_files linux_host ''y'' temp_disk)) [''home'']
        = lookup temp_disk [''home'']
      \<or> (lookup (fst (clean_temp_files linux_host ''y'' temp_disk)) [''home''] = None
         \<and> (\<exists>t\<in>set (temp_dirs_of linux_host). strict_prefix t [''home'']))"
    by blast
  with nothome home
  have b: "lookup (fst (clean_temp_files linux_host ''y'' temp_disk)) [''home''] = Some Dir"
    by simp
  from h mem isdir a b show ?thesis by blast
qed

text \<open>
  On a Linux host whose home directory is \<^verbatim>\<open>/tmp/u\<close> the configured location
  \<^verbatim>\<open>~/.cache\<close> lies inside the configured location \<^verbatim>\<open>/tmp\<close>: it is a directory before
  the purge and does not exist after it.
\<close>

theorem nested_location_is_removed:
  "temp_dirs_of tmp_home_host = [[''tmp''], [''tmp'', ''u'', ''.cache'']]
   \<and> os_path_isdir tmp_home_disk [''tmp'', ''u'', ''.cache'']
   \<and> clean_temp_files tmp_home_host ''y'' tmp_home_disk
       = ([([''tmp''], Dir)],
          [InfoDeletedDirectory [''tmp'', ''u'', ''.cache''],
           InfoDeletedDirectory [''tmp'', ''u'']],
          0, 0)
   \<and> \<not> os_path_exists (fst (clean_temp_files tmp_home_host ''y'' tmp_home_disk))
         [''tmp'', ''u'', ''.cache'']"
  by code_simp

section \<open>Relocating every file of a directory\<close>

text \<open>
  C1, as amended. Take a disk with one entry per path and a source directory that holds
  only regular files, directly inside it, none of them named like a category folder, and
  a platform that refuses no move. One run without duplicate deletion returns the number
  of files in the directory as the moved count and 0 duplicates; every file of the
  directory is then at \<^verbatim>\<open><source_dir>/<category>/<name>\<close> with its content and no longer at
  the top level; every regular file below the directory after the run is one of these;
  the disk still has one entry per path and is unchanged outside the directory. The
  category is \<^verbatim>\<open>Others\<close> for an extension that no list holds and for a name without
  extension, and the category of the table for an extension that a list holds. What
  happens to a directory with a file named like a category folder, or on a platform that
  refuses a move, is shown by \<open>organize_files_leaves_file_in_place\<close> below.
\<close>

theorem organize_files_relocates_every_file:
  assumes dir: "os_path_isdir fs source_dir"
    and wf: "distinct (map fst fs)"
    and flat: "\<forall>q e. (q, e) \<in> set fs \<and> strict_prefix source_dir q
                 \<longrightarrow> butlast q = source_dir \<and> e \<noteq> Dir"
    and names: "\<forall>n\<in>set (children fs source_dir). n \<notin> set (map fst FILE_CATEGORIES)"
    and ok: "\<forall>a b. \<not> move_fails pf a b"
  shows "snd (snd (organize_files pf fs source_dir False))
           = Returned (length (children fs source_dir), 0)
       \<and> distinct (map fst (fst (organize_files pf fs source_dir False)))
       \<and> (\<forall>n c. lookup fs (source_dir @ [n]) = Some (File c)
            \<longrightarrow> lookup (fst (organize_files pf fs source_dir False))
                  (source_dir @ [category_of n, n]) = Some (File c)
                \<and> lookup (fst (organize_files pf fs source_dir False)) (source_dir @ [n]) = None)
       \<and> (\<forall>q c. strict_prefix source_dir q
                \<and> lookup (fst (organize_files pf fs source_dir False)) q = Some (File c)
            \<longrightarrow> (\<exists>n. q = source_dir @ [category_of n, n]
                     \<and> lookup fs (source_dir @ [n]) = Some (File c)))
       \<and> (\<forall>q. \<not> prefix source_dir q
            \<longrightarrow> lookup (fst (organize_files pf fs source_dir False)) q = lookup fs q)
       \<and> (\<forall>n. (\<forall>x\<in>set FILE_CATEGORIES. str_lower (snd (os_path_splitext n)) \<notin> set (snd x))
            \<longrightarrow> category_of n = ''Others'')
       \<and> (\<forall>n. snd (os_path_splitext n) = [] \<longrightarrow> category_of n = ''Others'')
       \<and> (\<forall>n cat exts. (cat, exts) \<in> set FILE_CATEGORIES
                \<and> str_lower (snd (os_path_splitext n)) \<in> set exts
            \<longrightarrow> category_of n = cat)"
proof -
  let ?names = "children fs source_dir"
  let ?st = "initial_org_state fs"
  let ?fs1 = "fst (organize_files pf fs source_dir False)"
  have start: "disk ?st = fs" "moved_count ?st = 0" "duplicate_count ?st = 0"
    by (simp_all add: initial_org_state_def)
  have a1: "os_path_isdir (disk ?st) source_dir" using dir by (simp add: start)
  have a2: "distinct ?names" using wf by (rule children_distinct)
  have a3: "\<forall>n\<in>set ?names. \<exists>c. lookup (disk ?st) (source_dir @ [n]) = Some (File c)"
  proof
    fix n assume "n \<in> set ?names"
    from children_member [OF this] obtain e where e: "(source_dir @ [n], e) \<in> set fs" by blast
    moreover have "strict_prefix source_dir (source_dir @ [n])"
      by (simp add: strict_prefix_def)
    ultimately have "e \<noteq> Dir" using flat by blast
    then obtain c where "e = File c" by (cases e) simp_all
    with lookup_entry [OF wf e] show "\<exists>c. lookup (disk ?st) (source_dir @ [n]) = Some (File c)"
      by (simp add: start)
  qed
  have a5: "\<forall>n\<in>set ?names. lookup (disk ?st) (source_dir @ [category_of n, n]) = None"
  proof
    fix n assume "n \<in> set ?names"
    show "lookup (disk ?st) (source_dir @ [category_of n, n]) = None"
    proof (rule ccontr)
      assume "lookup (disk ?st) (source_dir @ [category_of n, n]) \<noteq> None"
      then obtain e where "map_of fs (source_dir @ [category_of n, n]) = Some e"
        by (auto simp: start lookup_def)
      then have "(source_dir @ [category_of n, n], e) \<in> set fs" by (rule map_of_SomeD)
      moreover have "strict_prefix source_dir (source_dir @ [category_of n, n])"
        by (simp add: strict_prefix_def)
      ultimately have "butlast (source_dir @ [category_of n, n]) = source_dir"
        using flat by blast
      then show False by (simp add: butlast_append)
    qed
  qed
  have a6: "\<forall>cat\<in>set (map fst FILE_CATEGORIES). \<not> os_path_isfile (disk ?st) (source_dir @ [cat])"
  proof
    fix cat assume cat: "cat \<in> set (map fst FILE_CATEGORIES)"
    show "\<not> os_path_isfile (disk ?st) (source_dir @ [cat])"
    proof
      assume "os_path_isfile (disk ?st) (source_dir @ [cat])"
      then have "cat \<in> set ?names" by (simp add: start isfile_listed)
      with names cat show False by blast
    qed
  qed
  from relocate_loop [OF a1 a2 a3 names a5 a6 ok] obtain st'
    where loop: "organize_loop pf source_dir False ?names ?st = (None, st')"
      and count: "moved_count st' = length ?names" "duplicate_count st' = 0"
      and moved: "\<And>n. n \<in> set ?names \<Longrightarrow>
                 lookup (disk st') (source_dir @ [category_of n, n]) = lookup fs (source_dir @ [n])
                 \<and> lookup (disk st') (source_dir @ [n]) = None
                 \<and> lookup (disk st') (source_dir @ [category_of n]) = Some Dir"
      and frame: "\<And>p. (\<forall>n\<in>set ?names. p \<noteq> source_dir @ [n]
                                    \<and> p \<noteq> source_dir @ [category_of n, n]
                                    \<and> p \<noteq> source_dir @ [category_of n])
                  \<Longrightarrow> lookup (disk st') p = lookup fs p"
      and wf': "distinct (map fst (disk st'))"
    using wf unfolding start by auto
  have run: "organize_files pf fs source_dir False
             = (disk st', logfile st', Returned (length ?names, 0))"
    using dir loop count
    by (simp add: organize_files_def os_listdir_def os_path_exists_def os_path_isdir_def)
  then have fs1: "?fs1 = disk st'" by simp
  have c1: "snd (snd (organize_files pf fs source_dir False)) = Returned (length ?names, 0)"
    by (simp add: run)
  have c0: "distinct (map fst ?fs1)"
    using wf' by (simp add: fs1)
  have c2: "\<forall>n c. lookup fs (source_dir @ [n]) = Some (File c)
            \<longrightarrow> lookup ?fs1 (source_dir @ [category_of n, n]) = Some (File c)
                \<and> lookup ?fs1 (source_dir @ [n]) = None"
  proof (intro allI impI)
    fix n c assume a: "lookup fs (source_dir @ [n]) = Some (File c)"
    then have "os_path_isfile fs (source_dir @ [n])" by (simp add: os_path_isfile_def)
    then have "n \<in> set ?names" by (rule isfile_listed)
    from moved [OF this] a
    show "lookup ?fs1 (source_dir @ [category_of n, n]) = Some (File c)
          \<and> lookup ?fs1 (source_dir @ [n]) = None"
      by (simp add: fs1)
  qed
  have c3: "\<forall>q c. strict_prefix source_dir q \<and> lookup ?fs1 q = Some (File c)
            \<longrightarrow> (\<exists>n. q = source_dir @ [category_of n, n]
                     \<and> lookup fs (source_dir @ [n]) = Some (File c))"
  proof (intro allI impI)
    fix q c assume a: "strict_prefix source_dir q \<and> lookup ?fs1 q = Some (File c)"
    then have below: "strict_prefix source_dir q" and holds: "lookup (disk st') q = Some (File c)"
      by (simp_all add: fs1)
    show "\<exists>n. q = source_dir @ [category_of n, n] \<and> lookup fs (source_dir @ [n]) = Some (File c)"
    proof (cases "\<forall>n\<in>set ?names. q \<noteq> source_dir @ [n]
                                    \<and> q \<noteq> source_dir @ [category_of n, n]
                                    \<and> q \<noteq> source_dir @ [category_of n]")
      case True
      from frame [OF True] holds have old: "lookup fs q = Some (File c)" by simp
      then have mem: "(q, File c) \<in> set fs" by (rule lookup_SomeD)
      with flat below have "butlast q = source_dir" by blast
      moreover from below have "q \<noteq> []" by auto
      ultimately have q: "q = source_dir @ [last q]"
        using append_butlast_last_id [of q] by simp
      with old have "os_path_isfile fs (source_dir @ [last q])"
        by (simp add: os_path_isfile_def)
      then have "last q \<in> set ?names" by (rule isfile_listed)
      with True q show ?thesis by blast
    next
      case False
      then obtain n where n: "n \<in> set ?names"
        and "q = source_dir @ [n] \<or> q = source_dir @ [category_of n, n]
             \<or> q = source_dir @ [category_of n]"
        by blast
      with moved [OF n] holds have "q = source_dir @ [category_of n, n]"
        and "lookup fs (source_dir @ [n]) = Some (File c)"
        by auto
      then show ?thesis by blast
    qed
  qed
  have c4: "\<forall>q. \<not> prefix source_dir q \<longrightarrow> lookup ?fs1 q = lookup fs q"
  proof (intro allI impI)
    fix q assume "\<not> prefix source_dir q"
    then have "\<forall>n\<in>set ?names. q \<noteq> source_dir @ [n]
                                    \<and> q \<noteq> source_dir @ [category_of n, n]
                                    \<and> q \<noteq> source_dir @ [category_of n]"
      by (auto simp: prefix_def)
    from frame [OF this] show "lookup ?fs1 q = lookup fs q" by (simp add: fs1)
  qed
  have c5: "\<forall>n. (\<forall>x\<in>set FILE_CATEGORIES. str_lower (snd (os_path_splitext n)) \<notin> set (snd x))
            \<longrightarrow> category_of n = ''Others''"
    using category_of_others by blast
  have c6: "\<forall>n. snd (os_path_splitext n) = [] \<longrightarrow> category_of n = ''Others''"
  proof (intro allI impI)
    fix n assume e: "snd (os_path_splitext n) = []"
    have "\<forall>x\<in>set FILE_CATEGORIES. [] \<notin> set (snd x)"
      by code_simp
    with e show "category_of n = ''Others''"
      by (intro category_of_others) (simp add: str_lower_def)
  qed
  have c7: "\<forall>n cat exts. (cat, exts) \<in> set FILE_CATEGORIES
                \<and> str_lower (snd (os_path_splitext n)) \<in> set exts
            \<longrightarrow> category_of n = cat"
    using category_of_listed by blast
  from c1 c0 c2 c3 c4 c5 c6 c7 show ?thesis
    by (intro conjI) assumption+
qed

theorem organize_files_relocates_every_file_witness:
  "os_path_isdir downloads_disk [''d'']
   \<and> distinct (map fst downloads_disk)
   \<and> snd (snd (organize_files linux_host downloads_disk [''d''] False)) = Returned (3, 0)
   \<and> lookup (fst (organize_files linux_host downloads_disk [''d''] False))
        [''d'', ''Images'', ''a.JPG''] = Some (File ''pic'')
   \<and> lookup (fst (organize_files linux_host downloads_disk [''d''] False))
        [''d'', ''Others'', ''README''] = Some (File ''read me'')
   \<and> lookup (fst (organize_files linux_host downloads_disk [''d''] False))
        [''d'', ''README''] = None"
proof -
  have h1: "os_path_isdir downloads_disk [''d'']"
    by code_simp
  have h2: "distinct (map fst downloads_disk)"
    by code_simp
  have h3: "\<forall>q e. (q, e) \<in> set downloads_disk \<and> strict_prefix [''d''] q
              \<longrightarrow> butlast q = [''d''] \<and> e \<noteq> Dir"
    by (auto simp: downloads_disk_def)
  have ls: "children downloads_disk [''d''] = [''a.JPG'', ''notes.txt'', ''README'']"
    by code_simp
  have h4: "\<forall>n\<in>set (children downloads_disk [''d'']). n \<notin> set (map fst FILE_CATEGORIES)"
    by code_simp
  have h5: "\<forall>a b. \<not> move_fails linux_host a b"
    by (simp add: linux_host_def)
  have cat1: "category_of ''a.JPG'' = ''Images''" and cat2: "category_of ''README'' = ''Others''"
    by code_simp+
  have f1: "lookup downloads_disk ([''d''] @ [''a.JPG'']) = Some (File ''pic'')"
    and f2: "lookup downloads_disk ([''d''] @ [''README'']) = Some (File ''read me'')"
    by code_simp+
  note inst = organize_files_relocates_every_file [OF h1 h2 h3 h4 h5]
  from inst have a: "snd (snd (organize_files linux_host downloads_disk [''d''] False))
      = Returned (length (children downloads_disk [''d'']), 0)"
    by blast
  from inst f1 have "lookup (fst (organize_files linux_host downloads_disk [''d''] False))
      ([''d''] @ [category_of ''a.JPG'', ''a.JPG'']) = Some (File ''pic'')"
    by blast
  then have b: "lookup (fst (organize_files linux_host downloads_disk [''d''] False))
      [''d'', ''Images'', ''a.JPG''] = Some (File ''pic'')"
    by (simp add: cat1)
  from inst f2 have "lookup (fst (organize_files linux_host downloads_disk [''d''] False))
      ([''d''] @ [category_of ''README'', ''README'']) = Some (File ''read me'')
    \<and> lookup (fst (organize_files linux_host downloads_disk [''d''] False))
      ([''d''] @ [''README'']) = None"
    by blast
  then have c: "lookup (fst (organize_files linux_host downloads_disk [''d''] False))
      [''d'', ''Others'', ''README''] = Some (File ''read me'')"
    and d: "lookup (fst (organize_files linux_host downloads_disk [''d''] False))
      [''d'', ''README''] = None"
    by (simp_all add: cat2)
  from a have a': "snd (snd (organize_files linux_host downloads_disk [''d''] False))
      = Returned (3, 0)"
    by (simp add: ls)
  from h1 h2 a' b c d show ?thesis by blast
qed

text \<open>
  A move that raises is logged and the file stays where it was (lines 95 to 101): the run
  returns a moved count of 0 for the one file it processed. And a regular file named
  \<^verbatim>\<open>Others\<close> makes \<^verbatim>\<open>os.makedirs\<close> raise before anything is moved.
\<close>

theorem organize_files_leaves_file_in_place:
  "organize_files linux_host single_others_disk [''d''] False
     = (single_others_disk, [], Raised FileExistsError)
   \<and> organize_files refusing_host single_picture_disk [''d''] False
     = ([([''d''], Dir), ([''d'', ''a.jpg''], File ''pic''), ([''d'', ''Images''], Dir)],
        [ErrorMove ''a.jpg'' PermissionError],
        Returned (0, 0))"
  by code_simp

section \<open>Two files with the same content\<close>




end
